theory Spec2Isabelle
  imports Complex_Main "HOL-Library.Word"
begin

section \<open>voice-transcribe.c: a shallow embedding\<close>

text \<open>
  The daemon of \<^verbatim>\<open>voice-transcribe.c\<close> is embedded function by function, in the order of
  the source. Everything the C code takes from its surroundings (the allocator, the clock,
  the sound device, the stop flag set by a signal handler, the HTTP transport, the process
  table) is an explicit argument of the model. A \<^verbatim>\<open>size_t\<close> is a 64-bit word (the
  x86-64 Linux ABI the program is written for), so its arithmetic wraps as the C does.
\<close>

subsection \<open>Constants (lines 21--26)\<close>

definition SAMPLE_RATE :: nat where "SAMPLE_RATE = 16000"
definition CHANNELS :: nat where "CHANNELS = 1"
definition BUFFER_SIZE :: nat where "BUFFER_SIZE = 4096"
definition MAX_RECORDING_TIME :: int where "MAX_RECORDING_TIME = 300"

subsection \<open>Memory: blocks of bytes behind addresses\<close>

text \<open>
  A pointer is an address, \<open>0\<close> being \<^verbatim>\<open>NULL\<close>; the heap maps the address of every live
  block to its bytes, a list as long as the block. What \<^verbatim>\<open>malloc\<close> and \<^verbatim>\<open>realloc\<close>
  return is decided by the allocator, so it is an argument \<open>r\<close>: \<open>0\<close> when the call fails,
  the address of the block otherwise. A failed \<^verbatim>\<open>realloc\<close> leaves the old block as it
  is; a successful one frees it and keeps its bytes up to the new length. Bytes that C
  leaves indeterminate are \<open>0\<close> here; no statement below depends on them. An access through
  \<^verbatim>\<open>NULL\<close>, through a freed address or past the end of a block is undefined behaviour
  in C and the value \<open>Inl Segfault\<close> here.
\<close>

type_synonym byte = "8 word"
type_synonym size_t = "64 word"
type_synonym addr = nat
type_synonym heap = "addr \<Rightarrow> byte list option"

datatype fault = Segfault

definition resize :: "nat \<Rightarrow> byte list \<Rightarrow> byte list" where
  "resize n blk = take n blk @ replicate (n - length blk) 0"

definition malloc :: "addr \<Rightarrow> heap \<Rightarrow> size_t \<Rightarrow> heap \<times> addr" where
  "malloc r h n = (if r = 0 then (h, 0) else (h(r \<mapsto> resize (unat n) []), r))"

definition realloc :: "addr \<Rightarrow> heap \<Rightarrow> addr \<Rightarrow> size_t \<Rightarrow> heap \<times> addr" where
  "realloc r h p n =
     (if r = 0 then (h, 0)
      else ((h(p := None))(r \<mapsto> resize (unat n) (case h p of None \<Rightarrow> [] | Some blk \<Rightarrow> blk)), r))"

definition memcpy :: "heap \<Rightarrow> addr \<Rightarrow> nat \<Rightarrow> byte list \<Rightarrow> fault + heap" where
  "memcpy h p off bs =
     (case h p of
        None \<Rightarrow> Inl Segfault
      | Some blk \<Rightarrow>
          if p \<noteq> 0 \<and> off + length bs \<le> length blk
          then Inr (h(p \<mapsto> take off blk @ bs @ drop (off + length bs) blk))
          else Inl Segfault)"

subsection \<open>The audio buffer (lines 28--32 and 65--91)\<close>

record AudioBuffer =
  data :: addr
  size_b :: size_t
  capacity :: size_t

text \<open>\<^verbatim>\<open>init_audio_buffer\<close> does not test what \<^verbatim>\<open>malloc\<close> returned.\<close>

definition init_audio_buffer :: "addr \<Rightarrow> heap \<Rightarrow> size_t \<Rightarrow> heap \<times> AudioBuffer" where
  "init_audio_buffer r h initial_size =
     (case malloc r h initial_size of
        (h', p) \<Rightarrow> (h', \<lparr>data = p, size_b = 0, capacity = initial_size\<rparr>))"

text \<open>
  The loop of lines 74--76, \<^verbatim>\<open>while (new_capacity < buf->size + size) new_capacity *= 2;\<close>.
  On 64-bit words it need not end (a capacity of \<open>0\<close> stays \<open>0\<close>), so it is a partial
  function: \<open>None\<close> is the loop that runs forever.
\<close>

partial_function (option) grow_capacity :: "size_t \<Rightarrow> size_t \<Rightarrow> size_t option" where
  "grow_capacity new_capacity need =
     (if new_capacity < need then grow_capacity (new_capacity * 2) need
      else Some new_capacity)"

declare grow_capacity.simps [code]

text \<open>Lines 82--83: the \<^verbatim>\<open>memcpy\<close> behind the stored bytes, and the new length.\<close>

definition copy_in :: "heap \<times> AudioBuffer \<Rightarrow> byte list \<Rightarrow> fault + heap \<times> AudioBuffer" where
  "copy_in hb bs =
     (case hb of (h, buf) \<Rightarrow>
        (case memcpy h (data buf) (unat (size_b buf)) bs of
           Inl f \<Rightarrow> Inl f
         | Inr h' \<Rightarrow> Inr (h', buf\<lparr>size_b := size_b buf + of_nat (length bs)\<rparr>)))"

text \<open>
  \<^verbatim>\<open>append_audio_buffer(buf, data, size)\<close>: the appended block is the list \<open>bs\<close> of its
  bytes and \<^verbatim>\<open>size\<close> is its length as a \<^verbatim>\<open>size_t\<close>. \<open>r\<close> is what \<^verbatim>\<open>realloc\<close> returns
  if the append calls it. The result is \<open>None\<close> when the doubling loop never ends,
  \<open>Some (Inl Segfault)\<close> when the \<^verbatim>\<open>memcpy\<close> is an invalid access, and
  \<open>Some (Inr (h, buf))\<close>, heap and buffer after the call, when the function returns.
\<close>

definition append_audio_buffer ::
  "addr \<Rightarrow> heap \<times> AudioBuffer \<Rightarrow> byte list \<Rightarrow> (fault + heap \<times> AudioBuffer) option" where
  "append_audio_buffer r hb bs =
     (case hb of (h, buf) \<Rightarrow>
        if size_b buf + of_nat (length bs) > capacity buf then
          (case grow_capacity (capacity buf * 2) (size_b buf + of_nat (length bs)) of
             None \<Rightarrow> None
           | Some new_capacity \<Rightarrow>
               (case realloc r h (data buf) new_capacity of
                  (h', new_data) \<Rightarrow>
                    if new_data = 0 then Some (Inr (h', buf))
                    else Some (copy_in (h', buf\<lparr>data := new_data, capacity := new_capacity\<rparr>) bs)))
        else Some (copy_in (h, buf) bs))"

text \<open>
  A sequence of appends, each with the answer the allocator would give it; it stops at the
  first append that does not return.
\<close>

fun appends ::
  "heap \<times> AudioBuffer \<Rightarrow> (addr \<times> byte list) list \<Rightarrow> (fault + heap \<times> AudioBuffer) option" where
  "appends hb [] = Some (Inr hb)"
| "appends hb ((r, bs) # rest) =
     (case append_audio_buffer r hb bs of
        None \<Rightarrow> None
      | Some (Inl f) \<Rightarrow> Some (Inl f)
      | Some (Inr hb') \<Rightarrow> appends hb' rest)"

definition free_audio_buffer :: "heap \<times> AudioBuffer \<Rightarrow> heap \<times> AudioBuffer" where
  "free_audio_buffer hb =
     (case hb of (h, buf) \<Rightarrow> (h(data buf := None), \<lparr>data = 0, size_b = 0, capacity = 0\<rparr>))"

text \<open>The sum of the appended sizes.\<close>

definition sizes_sum :: "(addr \<times> byte list) list \<Rightarrow> nat" where
  "sizes_sum steps = sum_list (map (\<lambda>s. length (snd s)) steps)"

text \<open>
  \<open>doubled_until_fits old need new\<close>: \<open>new\<close> is \<open>old\<close> doubled \<open>k \<ge> 1\<close> times, it
  holds \<open>need\<close> bytes, and no smaller number of doublings would.
\<close>

definition doubled_until_fits :: "nat \<Rightarrow> nat \<Rightarrow> nat \<Rightarrow> bool" where
  "doubled_until_fits old need new \<longleftrightarrow>
     (\<exists>k\<ge>1. new = old * 2 ^ k \<and> need \<le> new \<and> (\<forall>j. 1 \<le> j \<and> j < k \<longrightarrow> old * 2 ^ j < need))"

text \<open>
  The invariant of a buffer that was initialised with capacity \<open>c0\<close>: its block is live and
  as long as the capacity, the length is within the capacity, and the capacity is \<open>c0\<close>
  times a power of two.
\<close>

definition buffer_ok :: "size_t \<Rightarrow> heap \<times> AudioBuffer \<Rightarrow> bool" where
  "buffer_ok c0 hb \<longleftrightarrow>
     (case hb of (h, buf) \<Rightarrow>
        data buf \<noteq> 0 \<and>
        (\<exists>blk. h (data buf) = Some blk \<and> length blk = unat (capacity buf)) \<and>
        size_b buf \<le> capacity buf \<and>
        (\<exists>k. unat (capacity buf) = unat c0 * 2 ^ k))"

subsection \<open>Extracting the transcription (lines 457--488)\<close>

text \<open>
  C strings are lists of characters; \<open>c_str\<close> is what the string functions see of a
  byte array: the characters before the first \<^verbatim>\<open>NUL\<close>.
\<close>

definition NUL :: char where "NUL = CHR 0x00"
definition dquote :: char where "dquote = CHR 0x22"
definition backslash :: char where "backslash = CHR 0x5C"

definition c_str :: "string \<Rightarrow> string" where
  "c_str bs = takeWhile (\<lambda>c. c \<noteq> NUL) bs"

text \<open>
  \<^verbatim>\<open>strstr\<close> and \<^verbatim>\<open>strchr\<close> return a pointer into the string or \<^verbatim>\<open>NULL\<close>: here the
  rest of the string from the first occurrence on, or \<open>None\<close>.
\<close>

fun strstr :: "string \<Rightarrow> string \<Rightarrow> string option" where
  "strstr [] needle = (if needle = [] then Some [] else None)"
| "strstr (c # cs) needle =
     (if take (length needle) (c # cs) = needle then Some (c # cs) else strstr cs needle)"

fun strchr :: "string \<Rightarrow> char \<Rightarrow> string option" where
  "strchr [] c = None"
| "strchr (x # xs) c = (if x = c then Some (x # xs) else strchr xs c)"

text \<open>The \<^verbatim>\<open>switch\<close> of lines 473--480: the character written for an escaped one.\<close>

definition unescape_char :: "char \<Rightarrow> char" where
  "unescape_char c =
     (if c = CHR ''n'' then CHR 0x0A
      else if c = CHR ''t'' then CHR 0x09
      else if c = CHR ''r'' then CHR 0x0D
      else if c = dquote then dquote
      else if c = backslash then backslash
      else c)"

text \<open>
  The loop of lines 469--486 works in place: \<open>buf\<close> is the array behind \<^verbatim>\<open>*result\<close>
  (the copied field and its terminator), \<open>src\<close> and \<open>dst\<close> are the two pointers as
  indices, every \<^verbatim>\<open>*dst++ = ...\<close> is a list update, and the value is the array after
  the final \<^verbatim>\<open>*dst = '\0'\<close>. The tests \<open>src < length buf\<close> stand for the end of the
  array, which the C code never reaches since the array ends with \<^verbatim>\<open>NUL\<close>.
\<close>

function unescape_loop :: "string \<Rightarrow> nat \<Rightarrow> nat \<Rightarrow> string" where
  "unescape_loop buf src dst =
     (if src < length buf \<and> buf ! src \<noteq> NUL then
        if buf ! src = backslash \<and> Suc src < length buf \<and> buf ! Suc src \<noteq> NUL then
          unescape_loop (buf[dst := unescape_char (buf ! Suc src)]) (src + 2) (dst + 1)
        else unescape_loop (buf[dst := buf ! src]) (src + 1) (dst + 1)
      else buf[dst := NUL])"
  by pat_completeness auto
termination
  by (relation "measure (\<lambda>(buf, src, dst). length buf - src)") auto

declare unescape_loop.simps [simp del]

text \<open>The marker \<^verbatim>\<open>"text":"\<close> of line 458, eight characters long.\<close>

definition text_marker :: string where
  "text_marker = [dquote] @ ''text'' @ [dquote] @ '':'' @ [dquote]"

text \<open>
  Lines 458--487 on the C string \<open>response_data\<close>: \<open>None\<close> when \<^verbatim>\<open>*result\<close> stays
  \<^verbatim>\<open>NULL\<close>, the string left in \<^verbatim>\<open>*result\<close> otherwise.
\<close>

definition parse_response :: "string \<Rightarrow> string option" where
  "parse_response response_data =
     (case strstr response_data text_marker of
        None \<Rightarrow> None
      | Some at_marker \<Rightarrow>
          (let text_start = drop 8 at_marker in
           case strchr text_start dquote of
             None \<Rightarrow> None
           | Some text_end \<Rightarrow>
               (let text_len = length text_start - length text_end;
                    result = take text_len text_start @ [NUL]
                in Some (c_str (unescape_loop result 0 0)))))"

text \<open>
  What the loop computes, as a function from the field to the result: a backslash and
  the character after it become one character, everything else is copied.
\<close>

fun unescape :: "string \<Rightarrow> string" where
  "unescape [] = []"
| "unescape [c] = [c]"
| "unescape (c # d # cs) =
     (if c = backslash then unescape_char d # unescape cs else c # unescape (d # cs))"

text \<open>
  \<^verbatim>\<open>transcribe_audio\<close> (lines 368--492). Its surroundings: whether \<^verbatim>\<open>mkstemps\<close> and
  \<^verbatim>\<open>curl_easy_init\<close> succeed, and what \<^verbatim>\<open>curl_easy_perform\<close> does: a transport
  error, or success with the bytes that \<^verbatim>\<open>write_callback\<close> collected in
  \<^verbatim>\<open>response.data\<close> (\<open>None\<close> when the callback never ran and the pointer is still
  \<^verbatim>\<open>NULL\<close>). The value is \<open>Inr None\<close> for the return value \<open>-1\<close> with \<^verbatim>\<open>*result\<close>
  unset, \<open>Inr (Some s)\<close> for the return value \<open>0\<close> with \<^verbatim>\<open>*result = s\<close>, and
  \<open>Inl Segfault\<close> for \<^verbatim>\<open>strstr(NULL, ...)\<close>. The \<^verbatim>\<open>malloc\<close> of line 464 is taken to
  succeed.
\<close>

datatype curl_outcome = CurlError | CurlOk "string option"

record upload_env =
  mkstemps_ok :: bool
  curl_init_ok :: bool
  perform :: curl_outcome

definition transcribe_audio :: "upload_env \<Rightarrow> byte list \<Rightarrow> fault + string option" where
  "transcribe_audio env audio_data =
     (if \<not> mkstemps_ok env then Inr None
      else if \<not> curl_init_ok env then Inr None
      else (case perform env of
              CurlError \<Rightarrow> Inr None
            | CurlOk None \<Rightarrow> Inl Segfault
            | CurlOk (Some response_data) \<Rightarrow> Inr (parse_response (c_str response_data))))"

text \<open>Whether the call reaches \<^verbatim>\<open>curl_easy_perform\<close>, that is, sends the request.\<close>

definition upload_requested :: "upload_env \<Rightarrow> bool" where
  "upload_requested env \<longleftrightarrow> mkstemps_ok env \<and> curl_init_ok env"

subsection \<open>The status file (lines 93--102)\<close>

text \<open>
  \<^verbatim>\<open>printf\<close> conversions. \<open>show_nat\<close> writes a number in decimal; \<open>fmt_02ld\<close> is
  \<^verbatim>\<open>%02ld\<close> (at least two characters, padded with zeros, a minus sign counting as
  one); \<open>c_div\<close> and \<open>c_mod\<close> are C's \<^verbatim>\<open>/\<close> and \<^verbatim>\<open>%\<close>, which truncate towards
  zero. \<open>fmt_2f\<close> is \<^verbatim>\<open>%.2f\<close>: glibc converts the exact binary value and rounds to
  nearest, ties to even. The levels the program prints are the literal \<open>0.0\<close> and
  \<^verbatim>\<open>g_current_level\<close>, a multiple of \<open>1/32768\<close> (see \<open>amplitude\<close> below), so a
  rational number holds them exactly.
\<close>

definition digit_char :: "nat \<Rightarrow> char" where
  "digit_char n = ''0123456789'' ! n"

fun show_nat :: "nat \<Rightarrow> string" where
  "show_nat n = (if n < 10 then [digit_char n] else show_nat (n div 10) @ [digit_char (n mod 10)])"

declare show_nat.simps [simp del]

definition fmt_ld :: "int \<Rightarrow> string" where
  "fmt_ld v = (if v < 0 then ''-'' @ show_nat (nat (- v)) else show_nat (nat v))"

definition fmt_02ld :: "int \<Rightarrow> string" where
  "fmt_02ld v = (let s = fmt_ld v in if length s < 2 then ''0'' @ s else s)"

definition c_div :: "int \<Rightarrow> int \<Rightarrow> int" where
  "c_div a b = sgn a * sgn b * (\<bar>a\<bar> div \<bar>b\<bar>)"

definition c_mod :: "int \<Rightarrow> int \<Rightarrow> int" where
  "c_mod a b = a - b * c_div a b"

definition round_half_even :: "rat \<Rightarrow> int" where
  "round_half_even x =
     (let f = \<lfloor>x\<rfloor>; r = x - of_int f
      in if r < 1 / 2 then f else if 1 / 2 < r then f + 1 else if even f then f else f + 1)"

definition fmt_2f :: "rat \<Rightarrow> string" where
  "fmt_2f x =
     (let h = nat (round_half_even (\<bar>x\<bar> * 100))
      in (if x < 0 then ''-'' else []) @ show_nat (h div 100) @ ''.''
           @ [digit_char (h mod 100 div 10), digit_char (h mod 10)])"

text \<open>The line of line 98, for a status, a level and the elapsed seconds.\<close>

definition status_line :: "string \<Rightarrow> rat \<Rightarrow> int \<Rightarrow> string" where
  "status_line status level elapsed =
     status @ ''|'' @ fmt_2f level @ ''|'' @ fmt_02ld (c_div elapsed 60) @ '':''
       @ fmt_02ld (c_mod elapsed 60) @ [CHR 0x0A]"

text \<open>
  \<^verbatim>\<open>update_status\<close>. \<open>g_status_file\<close> is \<open>None\<close> when the file could not be opened
  (the pointer is \<^verbatim>\<open>NULL\<close>) and the content of the file otherwise; \<open>now\<close> is what
  \<^verbatim>\<open>time(NULL)\<close> returns. The line is written from offset 0 over the old content
  (\<^verbatim>\<open>fseek\<close>, \<^verbatim>\<open>fprintf\<close>), and the file is cut at the end of the line
  (\<^verbatim>\<open>ftruncate\<close> at \<^verbatim>\<open>ftell\<close>).
\<close>

definition update_status :: "string option \<Rightarrow> int \<Rightarrow> int \<Rightarrow> string \<Rightarrow> rat \<Rightarrow> string option" where
  "update_status g_status_file now g_record_start_time status level =
     (case g_status_file of
        None \<Rightarrow> None
      | Some content \<Rightarrow>
          (let elapsed = now - g_record_start_time;
               line = status_line status level elapsed;
               written = line @ drop (length line) content
           in Some (take (length line) written)))"

text \<open>
  The reader of the file is the visualizer that \<^verbatim>\<open>monitor_thread\<close> writes out (lines
  107--272). It takes the status to be the text before the first \<^verbatim>\<open>|\<close> (line 157--158)
  and knows the ten statuses of its table \<^verbatim>\<open>status_text\<close> (lines 222--233).
\<close>

definition status_field :: "string \<Rightarrow> string" where
  "status_field line = takeWhile (\<lambda>c. c \<noteq> CHR ''|'') line"

definition status_text_keys :: "string list" where
  "status_text_keys =
     [''CONNECTING'', ''READY'', ''RECORDING'', ''PROCESSING'', ''UPLOADING'',
      ''COPIED'', ''FAILED'', ''NO_AUDIO'', ''MAX_TIME'', ''ERROR'']"

subsection \<open>The monitor thread (lines 285--296)\<close>

text \<open>
  The loop \<^verbatim>\<open>while (!g_stop_recording) update_status("RECORDING", g_current_level)\<close>.
  Each element of \<open>polls\<close> is what one test of the loop reads: the stop flag and the
  level at that moment. The value is the list of the calls of \<^verbatim>\<open>update_status\<close>,
  status and level. The thread knows nothing of the state of the session: the status it
  writes is always \<^verbatim>\<open>RECORDING\<close>. When \<open>polls\<close> ends before the flag is read as set,
  the loop is still running.
\<close>

fun monitor_thread :: "(bool \<times> rat) list \<Rightarrow> (string \<times> rat) list" where
  "monitor_thread [] = []"
| "monitor_thread ((g_stop_recording, g_current_level) # polls) =
     (if g_stop_recording then []
      else (''RECORDING'', g_current_level) # monitor_thread polls)"

subsection \<open>The recording thread (lines 299--365)\<close>

type_synonym sample = "16 word"

text \<open>
  Line 356, \<^verbatim>\<open>fabsf((float)buffer[i] / 32768.0f)\<close>: a 16-bit integer is exact as a
  \<^verbatim>\<open>float\<close>, dividing by \<open>2^15\<close> changes the exponent only, and so does taking the
  absolute value the sign. The value is the rational number \<open>|s| / 32768\<close> with no
  rounding, and the comparisons of line 357 are exact.
\<close>

definition amplitude :: "sample \<Rightarrow> rat" where
  "amplitude s = \<bar>of_int (sint s) / 32768\<bar>"

text \<open>The loop of lines 355--358 over the frames read, \<open>max_amp\<close> being the accumulator.\<close>

fun level_loop :: "rat \<Rightarrow> sample list \<Rightarrow> rat" where
  "level_loop max_amp [] = max_amp"
| "level_loop max_amp (s # ss) =
     level_loop (if amplitude s > max_amp then amplitude s else max_amp) ss"

text \<open>The bytes of the samples in memory, least significant byte first.\<close>

definition pcm_bytes :: "sample list \<Rightarrow> byte list" where
  "pcm_bytes ss = concat (map (\<lambda>s. [ucast s, ucast (drop_bit 8 s)]) ss)"

text \<open>
  What one iteration of the capture loop takes from its surroundings: the stop flag as
  the loop test reads it, the clock, the value of \<^verbatim>\<open>snd_pcm_readi\<close>, the value of
  \<^verbatim>\<open>snd_pcm_recover\<close> (used only after an error), the array \<^verbatim>\<open>buffer\<close> after the read,
  and what \<^verbatim>\<open>realloc\<close> returns if the append calls it.
\<close>

record capture_input =
  stop_flag :: bool
  clock :: int
  readi :: int
  recovered :: int
  pcm :: "sample list"
  realloc_result :: addr

text \<open>The globals the thread changes: the heap, \<^verbatim>\<open>g_audio_buffer\<close>, \<^verbatim>\<open>g_current_level\<close>.\<close>

record capture_state =
  mem :: heap
  audio :: AudioBuffer
  current_level :: rat

text \<open>Lines 346--360: one read, the append, and the level of the frames read.\<close>

definition capture_step :: "capture_state \<Rightarrow> capture_input \<Rightarrow> (fault + capture_state) option" where
  "capture_step st inp =
     (let frames = (if readi inp < 0 then recovered inp else readi inp) in
      if frames > 0 then
        (case append_audio_buffer (realloc_result inp) (mem st, audio st)
                (take (nat (frames * 2)) (pcm_bytes (pcm inp))) of
           None \<Rightarrow> None
         | Some (Inl f) \<Rightarrow> Some (Inl f)
         | Some (Inr (h, buf)) \<Rightarrow>
             Some (Inr \<lparr>mem = h, audio = buf,
                        current_level = level_loop 0 (take (nat frames) (pcm inp))\<rparr>))
      else Some (Inr st))"

text \<open>
  How the thread ends: no device, no hardware parameters, the stop flag read as set, the
  ceiling passed; or it has not ended: the inputs are used up and the loop is still
  running, the append has faulted, or the doubling loop of the append never returns.
\<close>

datatype thread_end = NoDevice | NoParams | Stopped | MaxTime | Running | Faulted | Hung

text \<open>The loop of lines 339--361, from the time \<open>start\<close> of \<^verbatim>\<open>g_record_start_time\<close>.\<close>

fun capture_loop :: "int \<Rightarrow> capture_state \<Rightarrow> capture_input list \<Rightarrow> thread_end \<times> capture_state" where
  "capture_loop start st [] = (Running, st)"
| "capture_loop start st (inp # rest) =
     (if stop_flag inp then (Stopped, st)
      else if clock inp - start > MAX_RECORDING_TIME then (MaxTime, st)
      else (case capture_step st inp of
              None \<Rightarrow> (Hung, st)
            | Some (Inl f) \<Rightarrow> (Faulted, st)
            | Some (Inr st') \<Rightarrow> capture_loop start st' rest))"

text \<open>
  The device: which names \<^verbatim>\<open>snd_pcm_open\<close> can open, whether \<^verbatim>\<open>snd_pcm_hw_params\<close>
  succeeds, and what the \<^verbatim>\<open>malloc\<close> of \<^verbatim>\<open>init_audio_buffer\<close> returns. Lines 306--313
  open \<^verbatim>\<open>plughw:0,0\<close> and, when that fails, \<^verbatim>\<open>default\<close>: the value is the names tried,
  in order, and the name opened.
\<close>

record device_env =
  snd_pcm_open :: "string \<Rightarrow> bool"
  hw_params_ok :: bool
  malloc_result :: addr

definition open_device :: "device_env \<Rightarrow> string list \<times> string option" where
  "open_device dev =
     (if snd_pcm_open dev ''plughw:0,0'' then ([''plughw:0,0''], Some ''plughw:0,0'')
      else if snd_pcm_open dev ''default'' then ([''plughw:0,0'', ''default''], Some ''default'')
      else ([''plughw:0,0'', ''default''], None))"

text \<open>
  \<^verbatim>\<open>recording_thread\<close>: the calls of \<^verbatim>\<open>update_status\<close> it makes, how it ends, and the
  globals it leaves.
\<close>

definition recording_thread ::
  "device_env \<Rightarrow> int \<Rightarrow> capture_state \<Rightarrow> capture_input list
     \<Rightarrow> (string \<times> rat) list \<times> thread_end \<times> capture_state" where
  "recording_thread dev start st inputs =
     (case snd (open_device dev) of
        None \<Rightarrow> ([(''ERROR: Audio device failed'', 0)], NoDevice, st)
      | Some capture_handle \<Rightarrow>
          if \<not> hw_params_ok dev then ([], NoParams, st)
          else
            (case init_audio_buffer (malloc_result dev) (mem st) (of_nat (SAMPLE_RATE * 2 * 10)) of
               (h, buf) \<Rightarrow>
                 (case capture_loop start (st\<lparr>mem := h, audio := buf\<rparr>) inputs of
                    (e, st') \<Rightarrow>
                      ([(''READY'', 0), (''RECORDING'', 0)]
                         @ (if e = MaxTime then [(''MAX_TIME'', 0)] else []), e, st'))))"

subsection \<open>The daemon: \<^verbatim>\<open>main\<close> after the fork (lines 608--672)\<close>

text \<open>
  What the child process takes from its surroundings: whether the status file is open,
  the device, the clock at line 621, the inputs of the capture loop, the transport of the
  upload, and whether \<^verbatim>\<open>popen("wl-copy")\<close> succeeds.
\<close>

record daemon_env =
  g_status_open :: bool
  device :: device_env
  start_time :: int
  inputs :: "capture_input list"
  upload :: upload_env
  popen_ok :: bool

datatype cleanup_action =
  Free_audio_buffer | Free_api_key | Curl_global_cleanup | Unlink_pidfile
  | Close_status_file | Unlink_status_file

text \<open>
  How the process ends: it returns from \<^verbatim>\<open>main\<close> with an exit code; or it does not
  return: it waits in \<^verbatim>\<open>pthread_join\<close> for a capture loop that is still running, it
  has faulted, or the capture thread never leaves the doubling loop.
\<close>

datatype process_end = Exited int | Joining | Crashed | Spinning

text \<open>
  A session: the calls of \<^verbatim>\<open>update_status\<close> by the capture thread and by \<^verbatim>\<open>main\<close>, in
  the order of the program (the join of line 633 puts the capture thread's calls before
  those of lines 636--658); how the process ends; the audio sent to the backend, if
  \<^verbatim>\<open>curl_easy_perform\<close> was called; the text piped to the clipboard command; and the
  cleanup of lines 663--670. The writes of the monitor thread are not in \<open>writes\<close>:
  they fall between these, wherever the scheduler puts them.
\<close>

record session =
  writes :: "(string \<times> rat) list"
  ending :: process_end
  request :: "byte list option"
  clipboard :: "string option"
  cleanup :: "cleanup_action list"

definition statuses :: "session \<Rightarrow> string list" where
  "statuses s = map fst (writes s)"

text \<open>The bytes \<^verbatim>\<open>g_audio_buffer.data[0 .. size)\<close>.\<close>

definition buffer_bytes :: "capture_state \<Rightarrow> byte list" where
  "buffer_bytes st =
     (case mem st (data (audio st)) of
        None \<Rightarrow> []
      | Some blk \<Rightarrow> take (unat (size_b (audio st))) blk)"

text \<open>The globals when the threads start: \<^verbatim>\<open>g_audio_buffer = {0}\<close>, level \<open>0\<close>.\<close>

definition initial_state :: capture_state where
  "initial_state =
     \<lparr>mem = Map.empty, audio = \<lparr>data = 0, size_b = 0, capacity = 0\<rparr>, current_level = 0\<rparr>"

text \<open>The capture thread of a session, and the globals it leaves.\<close>

definition capture :: "'a daemon_env_scheme \<Rightarrow> (string \<times> rat) list \<times> thread_end \<times> capture_state" where
  "capture env = recording_thread (device env) (start_time env) initial_state (inputs env)"

definition captured :: "'a daemon_env_scheme \<Rightarrow> capture_state" where
  "captured env = snd (snd (capture env))"

text \<open>
  Lines 635--672, after the join: \<open>ws\<close> are the calls of \<^verbatim>\<open>update_status\<close> so far and
  \<open>st\<close> the globals the capture thread left. The test of line 648 is on the value of
  \<^verbatim>\<open>transcribe_audio\<close> and on the pointer \<^verbatim>\<open>transcription\<close>, not on the text.
\<close>

definition finish :: "'a daemon_env_scheme \<Rightarrow> (string \<times> rat) list \<Rightarrow> capture_state \<Rightarrow> session" where
  "finish env ws st =
     (let tidy = [Free_audio_buffer, Free_api_key, Curl_global_cleanup, Unlink_pidfile]
                   @ (if g_status_open env then [Close_status_file, Unlink_status_file] else []);
          sent = (if upload_requested (upload env) then Some (buffer_bytes st) else None)
      in if size_b (audio st) > 0 then
           (case transcribe_audio (upload env) (buffer_bytes st) of
              Inl f \<Rightarrow>
                \<lparr>writes = ws @ [(''PROCESSING'', 0), (''UPLOADING'', 0)], ending = Crashed,
                 request = sent, clipboard = None, cleanup = []\<rparr>
            | Inr (Some transcription) \<Rightarrow>
                \<lparr>writes = ws @ [(''PROCESSING'', 0), (''UPLOADING'', 0), (''COPIED'', 0)],
                 ending = Exited 0, request = sent,
                 clipboard = (if popen_ok env then Some transcription else None), cleanup = tidy\<rparr>
            | Inr None \<Rightarrow>
                \<lparr>writes = ws @ [(''PROCESSING'', 0), (''UPLOADING'', 0), (''FAILED'', 0)],
                 ending = Exited 0, request = sent, clipboard = None, cleanup = tidy\<rparr>)
         else
           \<lparr>writes = ws @ [(''PROCESSING'', 0), (''NO_AUDIO'', 0)], ending = Exited 0,
            request = None, clipboard = None, cleanup = tidy\<rparr>)"

definition daemon :: "'a daemon_env_scheme \<Rightarrow> session" where
  "daemon env =
     (case capture env of
        (ws, e, st) \<Rightarrow>
          if e = Running then
            \<lparr>writes = (''CONNECTING'', 0) # ws, ending = Joining, request = None,
             clipboard = None, cleanup = []\<rparr>
          else if e = Faulted then
            \<lparr>writes = (''CONNECTING'', 0) # ws, ending = Crashed, request = None,
             clipboard = None, cleanup = []\<rparr>
          else if e = Hung then
            \<lparr>writes = (''CONNECTING'', 0) # ws, ending = Spinning, request = None,
             clipboard = None, cleanup = []\<rparr>
          else finish env ((''CONNECTING'', 0) # ws) st)"

text \<open>
  Every status written in a session, by any of the three threads; \<open>polls\<close> is what the
  tests of the monitor thread's loop read. The stop flag is set by the signal handler, or
  by \<^verbatim>\<open>main\<close> on line 639, 200 ms after it has written \<^verbatim>\<open>PROCESSING\<close>: a test before
  that reads it clear.
\<close>

definition session_statuses :: "'a daemon_env_scheme \<Rightarrow> (bool \<times> rat) list \<Rightarrow> string set" where
  "session_statuses env polls = set (statuses (daemon env)) \<union> fst ` set (monitor_thread polls)"

text \<open>\<open>precedes x y xs\<close>: \<open>y\<close> occurs in \<open>xs\<close> after an occurrence of \<open>x\<close>.\<close>

definition precedes :: "'a \<Rightarrow> 'a \<Rightarrow> 'a list \<Rightarrow> bool" where
  "precedes x y xs \<longleftrightarrow> y \<in> set (drop 1 (dropWhile (\<lambda>z. z \<noteq> x) xs))"

subsection \<open>The single instance: \<^verbatim>\<open>check_running\<close> and \<^verbatim>\<open>main\<close> up to the fork (lines 540--606)\<close>

text \<open>
  The surroundings of an invocation, on top of those of the daemon: the identity file
  (\<open>None\<close> when it cannot be opened, the process id that \<^verbatim>\<open>fscanf\<close> reads from it
  otherwise), the processes that \<^verbatim>\<open>kill(pid, 0)\<close> reports (the value \<open>0\<close>), the key that
  \<^verbatim>\<open>load_env\<close> leaves in \<^verbatim>\<open>g_api_key\<close>, what \<^verbatim>\<open>fork\<close> returns to the parent (\<open>None\<close>
  for \<open>-1\<close>, the child's process id, a positive number, otherwise), and whether the
  identity file can be opened for writing. \<open>g_status_open\<close> is the result of the
  \<^verbatim>\<open>fopen\<close> of line 570. The model follows the process that was started; the child,
  to which \<^verbatim>\<open>fork\<close> returns 0, is the daemon of the section before.
\<close>

record main_env = daemon_env +
  pidfile :: "int option"
  kill_probe :: "int \<Rightarrow> bool"
  api_key :: "string option"
  fork_result :: "int option"
  pidfile_fopen :: bool

datatype signal = SIGUSR1

text \<open>\<^verbatim>\<open>check_running\<close>: the value returned and the identity file afterwards.\<close>

definition check_running :: "main_env \<Rightarrow> int \<times> int option" where
  "check_running env =
     (case pidfile env of
        None \<Rightarrow> (0, None)
      | Some pid \<Rightarrow> if kill_probe env pid then (pid, Some pid) else (0, None))"

text \<open>
  An invocation: the exit code of the process that was started, the identity file when
  it exits, the signals it sent, and the session of the child when it forked one (the
  child runs lines 608--672; no other process captures).
\<close>

record invocation =
  exit_code :: int
  pidfile_after :: "int option"
  signals :: "(int \<times> signal) list"
  child :: "session option"

definition main :: "main_env \<Rightarrow> invocation" where
  "main env =
     (case check_running env of
        (existing_pid, pf) \<Rightarrow>
          if existing_pid > 0 then
            \<lparr>exit_code = 0, pidfile_after = pf, signals = [(existing_pid, SIGUSR1)], child = None\<rparr>
          else if api_key env = None then
            \<lparr>exit_code = 1, pidfile_after = None, signals = [], child = None\<rparr>
          else
            (case fork_result env of
               Some child_pid \<Rightarrow>
                 \<lparr>exit_code = 0,
                  pidfile_after = (if pidfile_fopen env then Some child_pid else pf),
                  signals = [], child = Some (daemon env)\<rparr>
             | None \<Rightarrow>
                 \<lparr>exit_code = 1, pidfile_after = pf, signals = [], child = None\<rparr>))"

subsection \<open>Auxiliary notions for the statements\<close>

text \<open>The globals when the capture loop is entered: line 331 on the initial globals.\<close>

definition loop_start :: "'a daemon_env_scheme \<Rightarrow> capture_state" where
  "loop_start env =
     (case init_audio_buffer (malloc_result (device env)) (mem initial_state)
             (of_nat (SAMPLE_RATE * 2 * 10)) of
        (h, buf) \<Rightarrow> initial_state\<lparr>mem := h, audio := buf\<rparr>)"

text \<open>
  The statuses that lines 643--660 write after \<^verbatim>\<open>PROCESSING\<close>, for the globals \<open>st\<close>
  the capture thread left.
\<close>

definition tail_of :: "'a daemon_env_scheme \<Rightarrow> capture_state \<Rightarrow> string list" where
  "tail_of env st =
     (if size_b (audio st) > 0 then
        ''UPLOADING'' # (case transcribe_audio (upload env) (buffer_bytes st) of
                           Inl f \<Rightarrow> []
                         | Inr (Some t) \<Rightarrow> [''COPIED'']
                         | Inr None \<Rightarrow> [''FAILED''])
      else [''NO_AUDIO''])"

text \<open>
  The calls of \<^verbatim>\<open>update_status\<close> by all three threads from the last test of the capture
  loop on, in the order of time, for a session whose capture loop has ended, by the stop
  flag or by the ceiling: \<^verbatim>\<open>MAX_TIME\<close> when the loop ended by the ceiling (line 342);
  the writes of the monitor thread until \<^verbatim>\<open>main\<close> has joined the capture thread; the
  \<^verbatim>\<open>PROCESSING\<close> of line 636; the writes of the monitor thread during the 200 ms of
  line 637, until line 639 sets the stop flag; the statuses of lines 643--660. \<open>n1\<close> and
  \<open>n2\<close> are the numbers of tests of the monitor's loop (line 286) in these two
  intervals; the monitor sleeps 50 ms between two tests. Each test reads the level that
  the capture thread left, and the stop flag: set when the capture loop ended by reading
  it set (lines 536 and 639 are the only writes, and both set it), clear when the loop
  ended by the ceiling and no signal has come since. A test and the write that follows it
  are one step. For a session whose capture loop has not ended, the list is empty.
\<close>

definition closing_writes :: "'a daemon_env_scheme \<Rightarrow> nat \<Rightarrow> nat \<Rightarrow> (string \<times> rat) list" where
  "closing_writes env n1 n2 =
     (case capture env of
        (ws, e, st) \<Rightarrow>
          if e = Stopped \<or> e = MaxTime then
            (if e = MaxTime then [(''MAX_TIME'', 0)] else [])
            @ monitor_thread (replicate n1 (e = Stopped, current_level st))
            @ (''PROCESSING'', 0)
            # monitor_thread (replicate n2 (e = Stopped, current_level st))
            @ map (\<lambda>s. (s, 0)) (tail_of env st)
          else [])"

subsection \<open>Concrete runs\<close>

text \<open>
  A session that captures two samples, is stopped, and whose upload is answered with
  \<^verbatim>\<open>{"text":""}\<close>, the answer of the backend for silence.
\<close>

definition empty_text_run :: daemon_env where
  "empty_text_run =
     \<lparr>g_status_open = True,
      device = \<lparr>snd_pcm_open = (\<lambda>name. True), hw_params_ok = True, malloc_result = 1\<rparr>,
      start_time = 1000,
      inputs = [\<lparr>stop_flag = False, clock = 1000, readi = 2, recovered = 0, pcm = [100, 200],
                 realloc_result = 0\<rparr>,
                \<lparr>stop_flag = True, clock = 1001, readi = 0, recovered = 0, pcm = [],
                 realloc_result = 0\<rparr>],
      upload = \<lparr>mkstemps_ok = True, curl_init_ok = True,
                 perform = CurlOk (Some (''{'' @ text_marker @ [dquote] @ ''}''))\<rparr>,
      popen_ok = True\<rparr>"

text \<open>A session on a machine where neither sound device can be opened.\<close>

definition no_device_run :: daemon_env where
  "no_device_run =
     \<lparr>g_status_open = True,
      device = \<lparr>snd_pcm_open = (\<lambda>name. False), hw_params_ok = True, malloc_result = 1\<rparr>,
      start_time = 1000,
      inputs = [],
      upload = \<lparr>mkstemps_ok = True, curl_init_ok = True, perform = CurlError\<rparr>,
      popen_ok = True\<rparr>"

text \<open>
  An invocation with no identity file, a key, a fork that succeeds with the child 4242,
  and a process table in which 4242 is the only process the probe reports.
\<close>

definition first_start :: main_env where
  "first_start =
     \<lparr>g_status_open = True,
      device = \<lparr>snd_pcm_open = (\<lambda>name. True), hw_params_ok = True, malloc_result = 1\<rparr>,
      start_time = 1000,
      inputs = [],
      upload = \<lparr>mkstemps_ok = True, curl_init_ok = True, perform = CurlError\<rparr>,
      popen_ok = True,
      pidfile = None,
      kill_probe = (\<lambda>pid. pid = 4242),
      api_key = Some ''sk-test'',
      fork_result = Some 4242,
      pidfile_fopen = True\<rparr>"

text \<open>
  A session that nobody stops. The first iteration of the capture loop reads the clock at
  300 seconds after the start, the second at 301 seconds; the upload fails in transport.
\<close>

definition at_ceiling :: capture_input where
  "at_ceiling =
     \<lparr>stop_flag = False, clock = 1300, readi = 2, recovered = 0, pcm = [100, 200],
      realloc_result = 0\<rparr>"

definition past_ceiling :: capture_input where
  "past_ceiling =
     \<lparr>stop_flag = False, clock = 1301, readi = 2, recovered = 0, pcm = [7, 8],
      realloc_result = 0\<rparr>"

definition ceiling_run :: daemon_env where
  "ceiling_run =
     \<lparr>g_status_open = True,
      device = \<lparr>snd_pcm_open = (\<lambda>name. True), hw_params_ok = True, malloc_result = 1\<rparr>,
      start_time = 1000,
      inputs = [at_ceiling, past_ceiling],
      upload = \<lparr>mkstemps_ok = True, curl_init_ok = True, perform = CurlError\<rparr>,
      popen_ok = True\<rparr>"

text \<open>The same session, stopped by a signal before the second iteration.\<close>

definition stopped_run :: daemon_env where
  "stopped_run = ceiling_run\<lparr>inputs := [at_ceiling, past_ceiling\<lparr>stop_flag := True\<rparr>]\<rparr>"

text \<open>
  The globals of both sessions when the loop has stored the frame of the first iteration:
  four bytes in the block of 320000 that line 331 allocated, and the level \<open>200 / 32768\<close>.
\<close>

definition one_frame :: capture_state where
  "one_frame =
     \<lparr>mem = Map.empty(1 \<mapsto> [100, 0, 200, 0] @ replicate 319996 0),
      audio = \<lparr>data = 1, size_b = 4, capacity = 320000\<rparr>, current_level = 25 / 4096\<rparr>"

subsection \<open>The encoding side\<close>

text \<open>
  The text field of a response is written by the backend, not by this program. For the
  round trip of the five characters that the loop of lines 470--485 names, this is the
  JSON encoding of a text: each of the five behind a backslash, every other character as
  it is.
\<close>

definition json_escape_char :: "char \<Rightarrow> string" where
  "json_escape_char c =
     (if c = CHR 0x0A then [backslash, CHR ''n'']
      else if c = CHR 0x09 then [backslash, CHR ''t'']
      else if c = CHR 0x0D then [backslash, CHR ''r'']
      else if c = dquote then [backslash, dquote]
      else if c = backslash then [backslash, backslash]
      else [c])"

definition json_escape :: "string \<Rightarrow> string" where
  "json_escape s = concat (map json_escape_char s)"

section \<open>The audio buffer\<close>

lemma grow_capacity_returns:
  assumes "0 < unat c" and "unat need \<le> 2 ^ 63"
  shows "\<exists>k. grow_capacity c need = Some (c * 2 ^ k) \<and> unat (c * 2 ^ k) = unat c * 2 ^ k
            \<and> unat need \<le> unat c * 2 ^ k \<and> (\<forall>j<k. unat c * 2 ^ j < unat need)"
  using assms
proof (induction "unat need - unat c" arbitrary: c rule: less_induct)
  case less
  show ?case
  proof (cases "c < need")
    case False
    then have "grow_capacity c need = Some c" by (simp add: grow_capacity.simps)
    moreover from False have "unat need \<le> unat c" by (simp add: word_less_nat_alt)
    ultimately show ?thesis by (intro exI[of _ 0]) simp
  next
    case True
    then have lt: "unat c < unat need" by (simp add: word_less_nat_alt)
    with less.prems have "2 * unat c < 2 ^ 64" by simp
    then have u2: "unat (c * 2) = unat c * 2"
      by (simp add: unat_word_ariths)
    have "unat need - unat (c * 2) < unat need - unat c"
      using lt less.prems u2 by simp
    moreover have "0 < unat (c * 2)" using less.prems u2 by simp
    ultimately obtain k where k: "grow_capacity (c * 2) need = Some (c * 2 * 2 ^ k)"
      "unat (c * 2 * 2 ^ k) = unat (c * 2) * 2 ^ k"
      "unat need \<le> unat (c * 2) * 2 ^ k" "\<forall>j<k. unat (c * 2) * 2 ^ j < unat need"
      using less.hyps[of "c * 2"] less.prems(2) by blast
    have g: "grow_capacity c need = grow_capacity (c * 2) need"
      using True by (subst grow_capacity.simps) simp
    have "\<forall>j<Suc k. unat c * 2 ^ j < unat need"
    proof (intro allI impI)
      fix j assume "j < Suc k"
      show "unat c * 2 ^ j < unat need"
      proof (cases j)
        case 0 then show ?thesis using lt by simp
      next
        case (Suc i)
        with \<open>j < Suc k\<close> have "i < k" by simp
        with k(4) have "unat (c * 2) * 2 ^ i < unat need" by blast
        then show ?thesis using Suc u2 by (simp add: mult.assoc)
      qed
    qed
    then show ?thesis
      using g k u2 by (intro exI[of _ "Suc k"]) (simp add: mult.assoc)
  qed
qed

lemma length_resize: "length (resize n blk) = n"
  by (simp add: resize_def)

lemma init_audio_buffer_ok:
  assumes "m \<noteq> 0"
  shows "buffer_ok ci (init_audio_buffer m hp ci)"
    and "size_b (snd (init_audio_buffer m hp ci)) = 0"
    and "capacity (snd (init_audio_buffer m hp ci)) = ci"
proof -
  show "buffer_ok ci (init_audio_buffer m hp ci)"
    using assms
    by (auto simp: buffer_ok_def init_audio_buffer_def malloc_def length_resize intro: exI[of _ 0])
qed (simp_all add: init_audio_buffer_def malloc_def)

lemma copy_in_fits:
  assumes "h (data buf) = Some blk" and "data buf \<noteq> 0"
    and "unat (size_b buf) + length bs \<le> length blk"
  shows "copy_in (h, buf) bs =
           Inr (h(data buf \<mapsto> take (unat (size_b buf)) blk @ bs @ drop (unat (size_b buf) + length bs) blk),
                buf\<lparr>size_b := size_b buf + of_nat (length bs)\<rparr>)"
  using assms by (simp add: copy_in_def memcpy_def)

lemma unat_add_len:
  fixes s :: size_t
  assumes "unat s + n \<le> 2 ^ 63"
  shows "unat (s + of_nat n) = unat s + n"
proof -
  have "n < 2 ^ 64" using assms by simp
  then have "unat (of_nat n :: size_t) = n" by (simp add: unat_of_nat)
  moreover have "unat s + n < 2 ^ 64" using assms by simp
  ultimately show ?thesis by (simp add: unat_word_ariths)
qed

text \<open>
  One append to a buffer that satisfies the invariant, with a \<^verbatim>\<open>realloc\<close> that succeeds
  and sizes below \<open>2^63\<close>: it returns, the invariant holds again, the length grows by the
  size of the block, and the capacity stays when the block fits and is doubled until it
  fits otherwise.
\<close>

lemma append_step:
  assumes ok: "buffer_ok c0 (h, buf)" and c0: "c0 \<noteq> 0" and r: "r \<noteq> 0"
    and bound: "unat (size_b buf) + length bs \<le> 2 ^ 63"
  shows "\<exists>h' buf'. append_audio_buffer r (h, buf) bs = Some (Inr (h', buf'))
           \<and> buffer_ok c0 (h', buf')
           \<and> unat (size_b buf') = unat (size_b buf) + length bs
           \<and> (if unat (size_b buf) + length bs \<le> unat (capacity buf)
               then capacity buf' = capacity buf
               else doubled_until_fits (unat (capacity buf)) (unat (size_b buf) + length bs)
                      (unat (capacity buf')))"
proof -
  let ?need = "size_b buf + of_nat (length bs)"
  have need: "unat ?need = unat (size_b buf) + length bs"
    using bound by (rule unat_add_len)
  from ok have d0: "data buf \<noteq> 0" and le: "size_b buf \<le> capacity buf"
    by (simp_all add: buffer_ok_def)
  from ok obtain blk where blk: "h (data buf) = Some blk" "length blk = unat (capacity buf)"
    unfolding buffer_ok_def by auto
  from ok obtain k0 where k0: "unat (capacity buf) = unat c0 * 2 ^ k0"
    unfolding buffer_ok_def by auto
  have c0pos: "0 < unat c0" using c0 by (simp add: unat_gt_0)
  show ?thesis
  proof (cases "?need > capacity buf")
    case False
    then have fits: "unat (size_b buf) + length bs \<le> unat (capacity buf)"
      using need by (simp add: word_less_nat_alt not_less)
    have ap: "append_audio_buffer r (h, buf) bs = Some (copy_in (h, buf) bs)"
      using False by (simp add: append_audio_buffer_def)
    have "size_b buf + of_nat (length bs) \<le> capacity buf" using False by simp
    then show ?thesis
      using ap copy_in_fits[of h buf blk bs] fits blk k0 d0 need
      by (auto simp: buffer_ok_def)
  next
    case True
    then have nofit: "unat (capacity buf) < unat (size_b buf) + length bs"
      using need by (simp add: word_less_nat_alt)
    have cap_pos: "0 < unat (capacity buf)" using k0 c0pos by simp
    have "2 * unat (capacity buf) < 2 ^ 64" using nofit bound by simp
    then have u2: "unat (capacity buf * 2) = unat (capacity buf) * 2"
      by (simp add: unat_word_ariths)
    have "0 < unat (capacity buf * 2)" using u2 cap_pos by simp
    moreover have "unat ?need \<le> 2 ^ 63" using need bound by simp
    ultimately obtain k where k:
      "grow_capacity (capacity buf * 2) ?need = Some (capacity buf * 2 * 2 ^ k)"
      "unat (capacity buf * 2 * 2 ^ k) = unat (capacity buf * 2) * 2 ^ k"
      "unat ?need \<le> unat (capacity buf * 2) * 2 ^ k"
      "\<forall>j<k. unat (capacity buf * 2) * 2 ^ j < unat ?need"
      using grow_capacity_returns[of "capacity buf * 2" ?need] by blast
    let ?nc = "capacity buf * 2 * 2 ^ k"
    let ?h' = "(h(data buf := None))(r \<mapsto> resize (unat ?nc) blk)"
    let ?b' = "buf\<lparr>data := r, capacity := ?nc\<rparr>"
    have nc: "unat ?nc = unat (capacity buf) * 2 ^ Suc k"
      using k(2) u2 by (simp add: mult.assoc)
    have re: "realloc r h (data buf) ?nc = (?h', r)"
      using r blk by (simp add: realloc_def)
    have ap: "append_audio_buffer r (h, buf) bs = Some (copy_in (?h', ?b') bs)"
      using True k(1) re r by (simp add: append_audio_buffer_def)
    have fits': "unat (size_b ?b') + length bs \<le> length (resize (unat ?nc) blk)"
      using k(3) k(2) need by (simp add: length_resize)
    have ci: "copy_in (?h', ?b') bs =
        Inr (?h'(r \<mapsto> take (unat (size_b buf)) (resize (unat ?nc) blk) @ bs @
                drop (unat (size_b buf) + length bs) (resize (unat ?nc) blk)),
             ?b'\<lparr>size_b := size_b buf + of_nat (length bs)\<rparr>)"
      using copy_in_fits[of ?h' ?b' "resize (unat ?nc) blk" bs] r fits' by simp
    have dbl: "doubled_until_fits (unat (capacity buf)) (unat (size_b buf) + length bs) (unat ?nc)"
      unfolding doubled_until_fits_def
    proof (intro exI[of _ "Suc k"] conjI allI impI)
      show "unat ?nc = unat (capacity buf) * 2 ^ Suc k" by (rule nc)
      show "unat (size_b buf) + length bs \<le> unat ?nc" using k(3) k(2) need by simp
    next
      fix j assume j: "1 \<le> j \<and> j < Suc k"
      then obtain i where i: "j = Suc i" "i < k" by (cases j) auto
      with k(4) have "unat (capacity buf * 2) * 2 ^ i < unat ?need" by blast
      then show "unat (capacity buf) * 2 ^ j < unat (size_b buf) + length bs"
        using i u2 need by (simp add: mult.assoc)
    qed simp
    have sz: "size_b buf + of_nat (length bs) \<le> ?nc"
      using k(3) k(2) by (simp add: word_le_nat_alt)
    have pw: "\<exists>k'. unat ?nc = unat c0 * 2 ^ k'"
      using nc k0 by (intro exI[of _ "k0 + Suc k"]) (simp add: power_add mult.assoc)
    have okk: "buffer_ok c0 (?h'(r \<mapsto> take (unat (size_b buf)) (resize (unat ?nc) blk) @ bs @
                drop (unat (size_b buf) + length bs) (resize (unat ?nc) blk)),
             ?b'\<lparr>size_b := size_b buf + of_nat (length bs)\<rparr>)"
      using r sz pw fits' by (simp add: buffer_ok_def length_resize)
    show ?thesis
      using ap ci okk need nofit dbl by simp
  qed
qed

lemma sizes_sum_simps [simp]:
  "sizes_sum [] = 0"
  "sizes_sum ((r, bs) # rest) = length bs + sizes_sum rest"
  "sizes_sum (xs @ ys) = sizes_sum xs + sizes_sum ys"
  by (simp_all add: sizes_sum_def)

lemma sizes_sum_take_le: "sizes_sum (take n steps) \<le> sizes_sum steps"
proof -
  have "sizes_sum steps = sizes_sum (take n steps) + sizes_sum (drop n steps)"
    by (metis append_take_drop_id sizes_sum_simps(3))
  then show ?thesis by simp
qed

lemma appends_ok:
  assumes "buffer_ok c0 (h, buf)" and "c0 \<noteq> 0" and "\<forall>s\<in>set steps. fst s \<noteq> 0"
    and "unat (size_b buf) + sizes_sum steps \<le> 2 ^ 63"
  shows "\<exists>h' buf'. appends (h, buf) steps = Some (Inr (h', buf')) \<and> buffer_ok c0 (h', buf')
           \<and> unat (size_b buf') = unat (size_b buf) + sizes_sum steps"
  using assms
proof (induction steps arbitrary: h buf)
  case Nil
  then show ?case by simp
next
  case (Cons s rest)
  obtain r bs where s: "s = (r, bs)" by (cases s)
  from Cons.prems s have r: "r \<noteq> 0" by simp
  from Cons.prems s have b1: "unat (size_b buf) + length bs \<le> 2 ^ 63" by simp
  from append_step[OF Cons.prems(1,2) r b1]
  obtain h1 buf1 where st: "append_audio_buffer r (h, buf) bs = Some (Inr (h1, buf1))"
    "buffer_ok c0 (h1, buf1)" "unat (size_b buf1) = unat (size_b buf) + length bs"
    by blast
  have "unat (size_b buf1) + sizes_sum rest \<le> 2 ^ 63"
    using st(3) Cons.prems(4) s by simp
  moreover have "\<forall>s\<in>set rest. fst s \<noteq> 0" using Cons.prems(3) by simp
  ultimately obtain h' buf' where
    "appends (h1, buf1) rest = Some (Inr (h', buf'))" "buffer_ok c0 (h', buf')"
    "unat (size_b buf') = unat (size_b buf1) + sizes_sum rest"
    using Cons.IH[OF st(2) Cons.prems(2)] by blast
  then show ?case using st s by simp
qed

lemma appends_snoc:
  "appends hb (xs @ [x]) =
     (case appends hb xs of
        None \<Rightarrow> None
      | Some (Inl f) \<Rightarrow> Some (Inl f)
      | Some (Inr hb') \<Rightarrow> appends hb' [x])"
proof (induction xs arbitrary: hb)
  case Nil
  then show ?case by simp
next
  case (Cons s xs)
  obtain r bs where s: "s = (r, bs)" by (cases s)
  show ?case
    using Cons.IH by (simp add: s split: option.splits sum.splits)
qed

text \<open>
  \<^bold>\<open>Claim C3.\<close> A buffer is initialised with a capacity \<open>c0 > 0\<close> and a successful
  \<^verbatim>\<open>malloc\<close>, and any sequence of blocks is appended to it, every \<^verbatim>\<open>realloc\<close>
  succeeding; the sizes add up to at most \<open>2^63\<close> bytes, so that no \<^verbatim>\<open>size_t\<close> wraps.
  Then after each number \<open>n\<close> of appends the call sequence has returned, the length is
  the sum of the \<open>n\<close> appended sizes, and the capacity is \<open>c0\<close> times a power of two and
  at least the length. Moreover each append leaves the capacity alone when its block
  fits, and otherwise doubles it as often as needed for the block to fit and no more
  often: the growth is a repeated doubling, never a fixed increment.
\<close>

theorem append_sequence_length_capacity:
  assumes "c0 \<noteq> 0" and "m \<noteq> 0" and "\<forall>s\<in>set steps. fst s \<noteq> 0"
    and "sizes_sum steps \<le> 2 ^ 63"
  shows "(\<forall>n\<le>length steps. \<exists>h buf.
            appends (init_audio_buffer m h0 c0) (take n steps) = Some (Inr (h, buf))
          \<and> unat (size_b buf) = sizes_sum (take n steps)
          \<and> (\<exists>k. unat (capacity buf) = unat c0 * 2 ^ k)
          \<and> size_b buf \<le> capacity buf)
       \<and> (\<forall>n<length steps. \<exists>h buf h' buf'.
            appends (init_audio_buffer m h0 c0) (take n steps) = Some (Inr (h, buf))
          \<and> appends (init_audio_buffer m h0 c0) (take (Suc n) steps) = Some (Inr (h', buf'))
          \<and> (if unat (size_b buf) + length (snd (steps ! n)) \<le> unat (capacity buf)
              then capacity buf' = capacity buf
              else doubled_until_fits (unat (capacity buf))
                     (unat (size_b buf) + length (snd (steps ! n))) (unat (capacity buf'))))"
proof -
  obtain hi bi where init: "init_audio_buffer m h0 c0 = (hi, bi)"
    by (cases "init_audio_buffer m h0 c0")
  have ok0: "buffer_ok c0 (hi, bi)" and s0: "size_b bi = 0"
    using init_audio_buffer_ok[OF assms(2), where ci = c0 and hp = h0] init by simp_all
  have prefix: "\<exists>h buf. appends (hi, bi) (take n steps) = Some (Inr (h, buf))
      \<and> buffer_ok c0 (h, buf) \<and> unat (size_b buf) = sizes_sum (take n steps)" for n
  proof -
    have "\<forall>s\<in>set (take n steps). fst s \<noteq> 0"
      using assms(3) by (meson in_set_takeD)
    moreover have "unat (size_b bi) + sizes_sum (take n steps) \<le> 2 ^ 63"
      using s0 sizes_sum_take_le[of n steps] assms(4) by simp
    ultimately show ?thesis
      using appends_ok[OF ok0 assms(1), of "take n steps"] s0 by simp
  qed
  have A: "\<forall>n\<le>length steps. \<exists>h buf.
            appends (hi, bi) (take n steps) = Some (Inr (h, buf))
          \<and> unat (size_b buf) = sizes_sum (take n steps)
          \<and> (\<exists>k. unat (capacity buf) = unat c0 * 2 ^ k)
          \<and> size_b buf \<le> capacity buf"
  proof (intro allI impI)
    fix n
    from prefix[of n] obtain h buf where
      "appends (hi, bi) (take n steps) = Some (Inr (h, buf))" "buffer_ok c0 (h, buf)"
      "unat (size_b buf) = sizes_sum (take n steps)" by blast
    then show "\<exists>h buf. appends (hi, bi) (take n steps) = Some (Inr (h, buf))
          \<and> unat (size_b buf) = sizes_sum (take n steps)
          \<and> (\<exists>k. unat (capacity buf) = unat c0 * 2 ^ k)
          \<and> size_b buf \<le> capacity buf"
      by (auto simp: buffer_ok_def)
  qed
  have B: "\<forall>n<length steps. \<exists>h buf h' buf'.
            appends (hi, bi) (take n steps) = Some (Inr (h, buf))
          \<and> appends (hi, bi) (take (Suc n) steps) = Some (Inr (h', buf'))
          \<and> (if unat (size_b buf) + length (snd (steps ! n)) \<le> unat (capacity buf)
              then capacity buf' = capacity buf
              else doubled_until_fits (unat (capacity buf))
                     (unat (size_b buf) + length (snd (steps ! n))) (unat (capacity buf')))"
  proof (intro allI impI)
    fix n assume n: "n < length steps"
    obtain r bs where sn: "steps ! n = (r, bs)" by (cases "steps ! n")
    from prefix[of n] obtain h buf where st:
      "appends (hi, bi) (take n steps) = Some (Inr (h, buf))" "buffer_ok c0 (h, buf)"
      "unat (size_b buf) = sizes_sum (take n steps)" by blast
    have tk: "take (Suc n) steps = take n steps @ [(r, bs)]"
      using n sn by (simp add: take_Suc_conv_app_nth)
    have "sizes_sum (take (Suc n) steps) \<le> 2 ^ 63"
      using sizes_sum_take_le[of "Suc n" steps] assms(4) by simp
    then have b1: "unat (size_b buf) + length bs \<le> 2 ^ 63"
      using st(3) tk by simp
    have r: "r \<noteq> 0" using assms(3) n sn by (metis fst_conv nth_mem)
    from append_step[OF st(2) assms(1) r b1]
    obtain h' buf' where ap: "append_audio_buffer r (h, buf) bs = Some (Inr (h', buf'))"
      "if unat (size_b buf) + length bs \<le> unat (capacity buf)
       then capacity buf' = capacity buf
       else doubled_until_fits (unat (capacity buf)) (unat (size_b buf) + length bs)
              (unat (capacity buf'))"
      by blast
    have "appends (hi, bi) (take (Suc n) steps) = Some (Inr (h', buf'))"
      using st(1) ap(1) by (simp add: tk appends_snoc)
    then show "\<exists>h buf h' buf'.
            appends (hi, bi) (take n steps) = Some (Inr (h, buf))
          \<and> appends (hi, bi) (take (Suc n) steps) = Some (Inr (h', buf'))
          \<and> (if unat (size_b buf) + length (snd (steps ! n)) \<le> unat (capacity buf)
              then capacity buf' = capacity buf
              else doubled_until_fits (unat (capacity buf))
                     (unat (size_b buf) + length (snd (steps ! n))) (unat (capacity buf')))"
      using st(1) ap(2) sn by auto
  qed
  show ?thesis using A B by (simp add: init)
qed

text \<open>
  The theorem at a buffer of capacity 4 that takes blocks of 3, 6 and 1 bytes: the second
  block does not fit, and the capacity goes from 4 to 16.
\<close>

theorem append_sequence_length_capacity_witness:
  "(4 :: size_t) \<noteq> 0 \<and> (5 :: addr) \<noteq> 0
   \<and> 0 \<notin> fst ` set [(1 :: addr, [1, 2, 3 :: byte]), (2, [4, 5, 6, 7, 8, 9]), (3, [10])]
   \<and> sizes_sum [(1, [1, 2, 3]), (2, [4, 5, 6, 7, 8, 9]), (3, [10])] \<le> 2 ^ 63
   \<and> (\<exists>h buf. appends (init_audio_buffer 5 Map.empty 4)
                 (take 3 [(1, [1, 2, 3]), (2, [4, 5, 6, 7, 8, 9]), (3, [10])]) = Some (Inr (h, buf))
          \<and> unat (size_b buf) = sizes_sum (take 3 [(1, [1, 2, 3]), (2, [4, 5, 6, 7, 8, 9]), (3, [10])])
          \<and> (\<exists>k. unat (capacity buf) = unat (4 :: size_t) * 2 ^ k)
          \<and> size_b buf \<le> capacity buf)"
proof -
  let ?steps = "[(1 :: addr, [1, 2, 3 :: byte]), (2, [4, 5, 6, 7, 8, 9]), (3, [10])]"
  have h1: "(4 :: size_t) \<noteq> 0" and h2: "(5 :: addr) \<noteq> 0" by simp_all
  have h3: "\<forall>s\<in>set ?steps. fst s \<noteq> 0" by simp
  have h4: "sizes_sum ?steps \<le> 2 ^ 63" by (simp add: sizes_sum_def)
  have n: "3 \<le> length ?steps" by simp
  from append_sequence_length_capacity[OF h1 h2 h3 h4, of Map.empty] n
  have "\<exists>h buf. appends (init_audio_buffer 5 Map.empty 4) (take 3 ?steps) = Some (Inr (h, buf))
          \<and> unat (size_b buf) = sizes_sum (take 3 ?steps)
          \<and> (\<exists>k. unat (capacity buf) = unat (4 :: size_t) * 2 ^ k)
          \<and> size_b buf \<le> capacity buf"
    by blast
  moreover have "0 \<notin> fst ` set ?steps" by simp
  ultimately show ?thesis using h4 by simp
qed

text \<open>
  \<^bold>\<open>Claim C8.\<close> For every heap, buffer and block: when the block does not fit, the
  doubling loop has returned a new capacity and the \<^verbatim>\<open>realloc\<close> to that capacity fails
  (returns \<^verbatim>\<open>NULL\<close>), the append returns, without a fault, and heap and buffer are what
  they were: data pointer, length, capacity and the stored bytes are unchanged, and the
  block is dropped.
\<close>

theorem append_realloc_failure_unchanged:
  assumes "size_b buf + of_nat (length bs) > capacity buf"
    and "grow_capacity (capacity buf * 2) (size_b buf + of_nat (length bs)) = Some new_capacity"
    and "snd (realloc r h (data buf) new_capacity) = 0"
  shows "append_audio_buffer r (h, buf) bs = Some (Inr (h, buf))"
proof -
  from assms(3) have "r = 0"
    by (simp add: realloc_def split: if_splits)
  then have "realloc r h (data buf) new_capacity = (h, 0)"
    by (simp add: realloc_def)
  with assms(1,2) show ?thesis
    by (simp add: append_audio_buffer_def)
qed

theorem append_realloc_failure_unchanged_witness:
  "append_audio_buffer 0 (Map.empty(5 \<mapsto> [1, 2, 3, 0]), \<lparr>data = 5, size_b = 3, capacity = 4\<rparr>) [4, 5, 6]
     = Some (Inr (Map.empty(5 \<mapsto> [1, 2, 3, 0]), \<lparr>data = 5, size_b = 3, capacity = 4\<rparr>))"
proof -
  let ?buf = "\<lparr>data = 5, size_b = 3, capacity = 4\<rparr> :: AudioBuffer"
  let ?bs = "[4, 5, 6] :: byte list"
  let ?h = "Map.empty(5 \<mapsto> [1, 2, 3, 0 :: byte]) :: heap"
  have a: "size_b ?buf + of_nat (length ?bs) > capacity ?buf" by simp
  have b: "grow_capacity (capacity ?buf * 2) (size_b ?buf + of_nat (length ?bs)) = Some 8"
    by (simp add: grow_capacity.simps)
  have c: "snd (realloc 0 ?h (data ?buf) 8) = 0" by (simp add: realloc_def)
  from append_realloc_failure_unchanged[OF a b c] show ?thesis .
qed

section \<open>Extraction and unescaping\<close>

lemma list_update_pre:
  "dst \<le> length pre \<Longrightarrow> (pre @ c # rest)[dst := x] = (pre @ [c])[dst := x] @ rest"
  by (simp add: list_update_append)

lemma take_Suc_update:
  "dst \<le> length pre \<Longrightarrow> take (Suc dst) ((pre @ [c])[dst := x]) = take dst pre @ [x]"
  by (simp add: take_Suc_conv_app_nth)

lemma takeWhile_stop:
  "\<forall>x\<in>set xs. P x \<Longrightarrow> \<not> P y \<Longrightarrow> takeWhile P (xs @ y # ys) = xs"
  by (induction xs) auto

lemma c_str_terminated:
  assumes "NUL \<notin> set (take dst buf)" and "dst < length buf"
  shows "c_str (buf[dst := NUL]) = take dst buf"
proof -
  have "buf[dst := NUL] = take dst buf @ NUL # drop (Suc dst) buf"
    using assms(2) by (simp add: upd_conv_take_nth_drop)
  moreover have "\<forall>x\<in>set (take dst buf). x \<noteq> NUL" using assms(1) by blast
  ultimately show ?thesis by (simp add: c_str_def takeWhile_stop)
qed

lemma unescape_loop_refines:
  assumes "length pre = src" and "dst \<le> src" and "NUL \<notin> set rest"
    and "NUL \<notin> set (take dst pre)"
  shows "c_str (unescape_loop (pre @ rest @ [NUL]) src dst) = take dst pre @ unescape rest"
  using assms
proof (induction rest arbitrary: pre src dst rule: unescape.induct)
  case 1
  have "(pre @ [NUL]) ! src = NUL" using 1 by (metis nth_append_length)
  then have "unescape_loop (pre @ [NUL]) src dst = (pre @ [NUL])[dst := NUL]"
    by (subst unescape_loop.simps) simp
  moreover have "c_str ((pre @ [NUL])[dst := NUL]) = take dst (pre @ [NUL])"
    using 1 by (intro c_str_terminated) simp_all
  ultimately show ?case using 1 by simp
next
  case (2 c)
  let ?pre' = "(pre @ [c])[dst := c]"
  have c: "c \<noteq> NUL" using 2 by simp
  have "unescape_loop (pre @ [c] @ [NUL]) src dst = unescape_loop ((pre @ [c, NUL])[dst := c]) (src + 1) (dst + 1)"
    using 2 c by (subst unescape_loop.simps) (simp add: nth_append)
  also have "(pre @ [c, NUL])[dst := c] = ?pre' @ [NUL]"
    using 2 list_update_pre[of dst pre c "[NUL]" c] by simp
  also have "unescape_loop (?pre' @ [NUL]) (src + 1) (dst + 1) = (?pre' @ [NUL])[dst + 1 := NUL]"
    using 2 by (subst unescape_loop.simps) (simp add: nth_append)
  finally have "c_str (unescape_loop (pre @ [c] @ [NUL]) src dst) = c_str ((?pre' @ [NUL])[dst + 1 := NUL])"
    by simp
  also have "\<dots> = take (dst + 1) (?pre' @ [NUL])"
    using 2 c take_Suc_update[of dst pre c c] by (intro c_str_terminated) simp_all
  also have "\<dots> = take dst pre @ [c]"
    using 2 take_Suc_update[of dst pre c c] by simp
  finally show ?case by simp
next
  case (3 c d cs)
  have c: "c \<noteq> NUL" and d: "d \<noteq> NUL" and cs: "NUL \<notin> set cs" using "3.prems"(3) by auto
  show ?case
  proof (cases "c = backslash")
    case True
    let ?x = "unescape_char d"
    let ?pre' = "((pre @ [c])[dst := ?x]) @ [d]"
    have x: "?x \<noteq> NUL" using d by (simp add: unescape_char_def NUL_def dquote_def backslash_def)
    have "unescape_loop (pre @ (c # d # cs) @ [NUL]) src dst
        = unescape_loop ((pre @ (c # d # cs) @ [NUL])[dst := ?x]) (src + 2) (dst + 1)"
      using "3.prems"(1,2) True c d by (subst unescape_loop.simps) (simp add: nth_append)
    also have "(pre @ (c # d # cs) @ [NUL])[dst := ?x] = ?pre' @ cs @ [NUL]"
      using "3.prems"(1,2) list_update_pre[of dst pre c "d # cs @ [NUL]" ?x] by simp
    finally have e: "unescape_loop (pre @ (c # d # cs) @ [NUL]) src dst
        = unescape_loop (?pre' @ cs @ [NUL]) (src + 2) (dst + 1)" .
    have "c_str (unescape_loop (?pre' @ cs @ [NUL]) (src + 2) (dst + 1)) = take (dst + 1) ?pre' @ unescape cs"
      using "3.prems"(1,2,4) x cs take_Suc_update[of dst pre c ?x]
      by (intro "3.IH"(1)[OF True]) simp_all
    then show ?thesis
      using e True "3.prems"(1,2) take_Suc_update[of dst pre c ?x] by simp
  next
    case False
    let ?pre' = "(pre @ [c])[dst := c]"
    have "unescape_loop (pre @ (c # d # cs) @ [NUL]) src dst
        = unescape_loop ((pre @ (c # d # cs) @ [NUL])[dst := c]) (src + 1) (dst + 1)"
      using "3.prems"(1,2) False c by (subst unescape_loop.simps) (simp add: nth_append)
    also have "(pre @ (c # d # cs) @ [NUL])[dst := c] = ?pre' @ (d # cs) @ [NUL]"
      using "3.prems"(1,2) list_update_pre[of dst pre c "d # cs @ [NUL]" c] by simp
    finally have e: "unescape_loop (pre @ (c # d # cs) @ [NUL]) src dst
        = unescape_loop (?pre' @ (d # cs) @ [NUL]) (src + 1) (dst + 1)" .
    have "c_str (unescape_loop (?pre' @ (d # cs) @ [NUL]) (src + 1) (dst + 1)) = take (dst + 1) ?pre' @ unescape (d # cs)"
      using "3.prems"(1,2,4) c d cs take_Suc_update[of dst pre c c]
      by (intro "3.IH"(2)[OF False]) simp_all
    then show ?thesis
      using e False "3.prems"(1,2) take_Suc_update[of dst pre c c] by simp
  qed
qed

lemma strstr_Some:
  "strstr hay needle = Some suf \<Longrightarrow> \<exists>pre. hay = pre @ suf \<and> take (length needle) suf = needle"
proof (induction hay)
  case Nil
  then show ?case by (simp split: if_splits)
next
  case (Cons c cs)
  show ?case
  proof (cases "take (length needle) (c # cs) = needle")
    case True
    with Cons.prems have "suf = c # cs" by simp
    with True show ?thesis by (intro exI[of _ "[]"]) simp
  next
    case False
    with Cons.prems have "strstr cs needle = Some suf" by simp
    from Cons.IH[OF this] obtain pre where "cs = pre @ suf" "take (length needle) suf = needle"
      by blast
    then show ?thesis by (intro exI[of _ "c # pre"]) simp
  qed
qed

lemma strchr_Some:
  "strchr s c = Some e \<Longrightarrow> \<exists>raw rest. s = raw @ c # rest \<and> e = c # rest \<and> c \<notin> set raw"
proof (induction s)
  case Nil
  then show ?case by simp
next
  case (Cons x xs)
  show ?case
  proof (cases "x = c")
    case True
    with Cons.prems show ?thesis by (intro exI[of _ "[]"] exI[of _ xs]) auto
  next
    case False
    with Cons.prems have "strchr xs c = Some e" by simp
    from Cons.IH[OF this] obtain raw rest where "xs = raw @ c # rest" "e = c # rest" "c \<notin> set raw"
      by blast
    with False show ?thesis by (intro exI[of _ "x # raw"] exI[of _ rest]) simp
  qed
qed

lemma c_str_no_NUL: "NUL \<notin> set (c_str bs)"
  unfolding c_str_def by (induction bs) auto

lemma unescape_char_dquote:
  "unescape_char d = dquote \<longleftrightarrow> d = dquote"
  "dquote = unescape_char d \<longleftrightarrow> d = dquote"
  by (auto simp: unescape_char_def dquote_def backslash_def)

lemma unescape_no_dquote: "dquote \<notin> set raw \<Longrightarrow> dquote \<notin> set (unescape raw)"
proof (induction raw rule: unescape.induct)
  case (3 c d cs)
  then show ?case by (cases "c = backslash") (auto simp: unescape_char_dquote)
qed simp_all

lemma length_unescape: "length (unescape raw) \<le> length raw"
  by (induction raw rule: unescape.induct) auto

lemma unescape_in_place:
  assumes "NUL \<notin> set raw"
  shows "c_str (unescape_loop (raw @ [NUL]) 0 0) = unescape raw"
  using unescape_loop_refines[of "[]" 0 0 raw] assms by simp

lemma length_text_marker: "length text_marker = 8"
  by (simp add: text_marker_def)

lemma parse_response_Some:
  assumes "parse_response d = Some s" and "NUL \<notin> set d"
  shows "\<exists>pre raw rest. d = pre @ text_marker @ raw @ dquote # rest
           \<and> dquote \<notin> set raw \<and> s = unescape raw"
proof (cases "strstr d text_marker")
  case None
  with assms(1) show ?thesis by (simp add: parse_response_def)
next
  case (Some at_marker)
  note am = this
  show ?thesis
  proof (cases "strchr (drop 8 at_marker) dquote")
    case None
    with assms(1) am show ?thesis by (simp add: parse_response_def)
  next
    case (Some text_end)
    note te = this
    from strstr_Some[OF am] obtain pre where pre: "d = pre @ at_marker"
      and tm: "take 8 at_marker = text_marker"
      by (auto simp: length_text_marker)
    from strchr_Some[OF te] obtain raw rest where raw: "drop 8 at_marker = raw @ dquote # rest"
      and te_eq: "text_end = dquote # rest" and nq: "dquote \<notin> set raw"
      by blast
    have "take 8 at_marker @ drop 8 at_marker = at_marker" by (rule append_take_drop_id)
    then have am_eq: "at_marker = text_marker @ raw @ dquote # rest"
      unfolding tm raw by (rule sym)
    have tk: "take (length (drop 8 at_marker) - length text_end) (drop 8 at_marker) = raw"
      unfolding raw te_eq by simp
    have "set raw \<subseteq> set d" unfolding pre am_eq by auto
    then have "NUL \<notin> set raw" using assms(2) by blast
    then have ue: "c_str (unescape_loop (raw @ [NUL]) 0 0) = unescape raw"
      by (rule unescape_in_place)
    have "parse_response d = Some (unescape raw)"
      using am te tk ue by (simp add: parse_response_def Let_def)
    with assms(1) have "s = unescape raw" by simp
    moreover have "d = pre @ text_marker @ raw @ dquote # rest"
      unfolding pre am_eq ..
    ultimately show ?thesis using nq by blast
  qed
qed

text \<open>
  \<^bold>\<open>Claim C10.\<close> Whatever the backend's response is, when \<^verbatim>\<open>transcribe_audio\<close> returns a
  transcription \<open>s\<close>, the response (as a C string) holds the marker, after it a field
  \<open>raw\<close> without a double quote, and at once after the field a double quote: the
  field ends at the first double quote after the marker, be it the quote of an escaped
  \<^verbatim>\<open>\"\<close>. The transcription is the field unescaped in place, it is no longer than the
  field, and it contains no double quote.
\<close>

theorem transcription_has_no_dquote:
  assumes "transcribe_audio env audio_data = Inr (Some s)"
  shows "\<exists>response_data pre raw rest.
            perform env = CurlOk (Some response_data)
          \<and> c_str response_data = pre @ text_marker @ raw @ dquote # rest
          \<and> dquote \<notin> set raw
          \<and> s = unescape raw
          \<and> length s \<le> length raw
          \<and> dquote \<notin> set s"
proof -
  from assms have ok: "mkstemps_ok env" "curl_init_ok env"
    by (simp_all add: transcribe_audio_def split: if_splits)
  from assms ok obtain response_data where rd: "perform env = CurlOk (Some response_data)"
    by (cases "perform env") (auto simp: transcribe_audio_def split: option.splits)
  with assms ok have pr: "parse_response (c_str response_data) = Some s"
    by (simp add: transcribe_audio_def)
  from parse_response_Some[OF pr c_str_no_NUL]
  obtain pre raw rest where f: "c_str response_data = pre @ text_marker @ raw @ dquote # rest"
    "dquote \<notin> set raw" "s = unescape raw" by blast
  have "length s \<le> length raw" "dquote \<notin> set s"
    using f(2,3) unescape_no_dquote[of raw] length_unescape[of raw] by simp_all
  with rd f show ?thesis by blast
qed

text \<open>The theorem at the response \<^verbatim>\<open>{"text":"a\nb"}\<close>.\<close>

theorem transcription_has_no_dquote_witness:
  "\<exists>response_data pre raw rest.
        perform \<lparr>mkstemps_ok = True, curl_init_ok = True,
                 perform = CurlOk (Some (''{'' @ text_marker @ ''a'' @ [backslash] @ ''nb'' @ [dquote] @ ''}''))\<rparr>
          = CurlOk (Some response_data)
      \<and> c_str response_data = pre @ text_marker @ raw @ dquote # rest
      \<and> dquote \<notin> set raw
      \<and> [CHR ''a'', CHR 0x0A, CHR ''b''] = unescape raw
      \<and> length [CHR ''a'', CHR 0x0A, CHR ''b''] \<le> length raw
      \<and> dquote \<notin> set [CHR ''a'', CHR 0x0A, CHR ''b'']"
proof -
  have "transcribe_audio \<lparr>mkstemps_ok = True, curl_init_ok = True,
      perform = CurlOk (Some (''{'' @ text_marker @ ''a'' @ [backslash] @ ''nb'' @ [dquote] @ ''}''))\<rparr> []
   = Inr (Some [CHR ''a'', CHR 0x0A, CHR ''b''])"
    by (simp add: transcribe_audio_def parse_response_def text_marker_def c_str_def
        NUL_def dquote_def backslash_def unescape_loop.simps unescape_char_def)
  from transcription_has_no_dquote[OF this] show ?thesis .
qed

text \<open>
  \<^bold>\<open>Claim C4.\<close> The escape \<^verbatim>\<open>\"\<close> does not come back as a double quote. For the
  response \<^verbatim>\<open>{"text":"say \"hi\""}\<close>, whose text is \<^verbatim>\<open>say "hi"\<close>, the field ends at
  the quote of the first \<^verbatim>\<open>\"\<close> and the transcription is the four characters of
  \<^verbatim>\<open>say \<close> and a backslash. The \<^verbatim>\<open>case '"'\<close> of the loop is never reached.
\<close>

theorem escaped_quote_truncates_text:
  "transcribe_audio \<lparr>mkstemps_ok = True, curl_init_ok = True,
      perform = CurlOk (Some (''{'' @ text_marker @ ''say '' @ [backslash, dquote] @ ''hi''
                               @ [backslash, dquote, dquote] @ ''}''))\<rparr> audio_data
   = Inr (Some (''say '' @ [backslash]))"
  by (simp add: transcribe_audio_def parse_response_def text_marker_def c_str_def
      NUL_def dquote_def backslash_def unescape_loop.simps unescape_char_def)

section \<open>The level of a frame\<close>

lemma amplitude_range: "0 \<le> amplitude s \<and> amplitude s \<le> 1"
proof -
  have "- (2 ^ 15) \<le> sint s" "sint s < 2 ^ 15"
    using sint_ge[of s] sint_lt[of s] by simp_all
  then have "\<bar>sint s\<bar> \<le> 32768" by simp
  then have "\<bar>(of_int (sint s) :: rat)\<bar> \<le> 32768"
    by (metis of_int_abs of_int_le_iff of_int_numeral)
  then show ?thesis by (simp add: amplitude_def)
qed

lemma level_loop_fold:
  "level_loop m xs = fold max (map amplitude xs) m"
proof (induction xs arbitrary: m)
  case Nil
  then show ?case by simp
next
  case (Cons s ss)
  have "(if m < amplitude s then amplitude s else m) = max (amplitude s) m"
    by (simp add: max_def not_less)
  then show ?case using Cons.IH by simp
qed

lemma level_loop_Max:
  "level_loop m xs = Max (insert m (amplitude ` set xs))"
proof -
  have "Max (set (m # map amplitude xs)) = fold max (map amplitude xs) m"
    by (rule Max.set_eq_fold)
  then show ?thesis by (simp add: level_loop_fold)
qed

lemma level_loop_peak:
  assumes "frame \<noteq> []"
  shows "level_loop 0 frame = Max (amplitude ` set frame)"
    and "0 \<le> level_loop 0 frame" and "level_loop 0 frame \<le> 1"
proof -
  let ?A = "amplitude ` set frame"
  have fin: "finite ?A" and ne: "?A \<noteq> {}" using assms by simp_all
  from Max_in[OF fin ne] obtain s where s: "Max ?A = amplitude s" by auto
  then have rng: "0 \<le> Max ?A" "Max ?A \<le> 1" using amplitude_range[of s] by simp_all
  have "Max (insert 0 ?A) = max 0 (Max ?A)"
    using fin ne by (rule Max_insert)
  with rng(1) have eq: "level_loop 0 frame = Max ?A"
    by (simp add: level_loop_Max)
  show "level_loop 0 frame = Max ?A" by (rule eq)
  show "0 \<le> level_loop 0 frame" "level_loop 0 frame \<le> 1" using eq rng by simp_all
qed

text \<open>
  \<^bold>\<open>Claim C9.\<close> When an iteration of the capture loop has read \<open>frames > 0\<close> samples (and
  its append returns), the level it leaves in \<^verbatim>\<open>g_current_level\<close> is the largest
  \<open>|s| / 32768\<close> over the samples \<open>s\<close> read in this iteration, as signed 16-bit
  numbers; it lies between 0 and 1; and it is a function of these samples alone: neither
  the level before the iteration nor any earlier frame enters it.
\<close>

theorem peak_level_of_frame:
  assumes "capture_step st inp = Some (Inr st')"
    and "frames = (if readi inp < 0 then recovered inp else readi inp)"
    and "0 < frames" and "nat frames \<le> length (pcm inp)"
  shows "current_level st' = Max ((\<lambda>s. \<bar>of_int (sint s)\<bar> / 32768) ` set (take (nat frames) (pcm inp)))
       \<and> 0 \<le> current_level st' \<and> current_level st' \<le> 1"
proof -
  let ?frame = "take (nat frames) (pcm inp)"
  have lv: "current_level st' = level_loop 0 ?frame"
    using assms(1,2,3)
    by (auto simp: capture_step_def Let_def split: option.splits sum.splits prod.splits if_splits)
  have ne: "?frame \<noteq> []" using assms(3,4) by auto
  have amp: "amplitude = (\<lambda>s. \<bar>of_int (sint s)\<bar> / 32768)"
    by (rule ext) (simp add: amplitude_def)
  from level_loop_peak[OF ne] lv show ?thesis unfolding amp by simp
qed

text \<open>The theorem at a read of three samples, the level before being \<open>3/4\<close>.\<close>

theorem peak_level_of_frame_witness:
  "\<exists>st'. capture_step
           \<lparr>mem = Map.empty(7 \<mapsto> [0, 0, 0, 0, 0, 0, 0, 0]),
            audio = \<lparr>data = 7, size_b = 0, capacity = 8\<rparr>, current_level = 3 / 4\<rparr>
           \<lparr>stop_flag = False, clock = 0, readi = 3, recovered = 0,
            pcm = [100, - 200, 5, 0], realloc_result = 0\<rparr> = Some (Inr st')
       \<and> current_level st' = Max ((\<lambda>s. \<bar>of_int (sint s)\<bar> / 32768) ` set (take (nat 3) [100, - 200, 5, 0 :: sample]))
       \<and> current_level st' = 25 / 4096
       \<and> 0 \<le> current_level st' \<and> current_level st' \<le> 1"
proof -
  let ?st = "\<lparr>mem = Map.empty(7 \<mapsto> [0, 0, 0, 0, 0, 0, 0, 0 :: byte]),
            audio = \<lparr>data = 7, size_b = 0, capacity = 8\<rparr>, current_level = 3 / 4\<rparr>"
  let ?inp = "\<lparr>stop_flag = False, clock = 0, readi = 3, recovered = 0,
            pcm = [100, - 200, 5, 0 :: sample], realloc_result = 0\<rparr>"
  have "\<exists>st'. capture_step ?st ?inp = Some (Inr st') \<and> current_level st' = 25 / 4096"
    by (simp add: capture_step_def append_audio_buffer_def copy_in_def memcpy_def pcm_bytes_def
        amplitude_def)
  then obtain st' where h1: "capture_step ?st ?inp = Some (Inr st')"
    and v: "current_level st' = 25 / 4096" by blast
  have h2: "(3 :: int) = (if readi ?inp < 0 then recovered ?inp else readi ?inp)" by simp
  have h3: "(0 :: int) < 3" by simp
  have h4: "nat 3 \<le> length (pcm ?inp)" by simp
  from peak_level_of_frame[OF h1 h2 h3 h4] h1 v show ?thesis by auto
qed

section \<open>Sessions\<close>

lemma capture_loop_end:
  "fst (capture_loop start st inps) \<in> {Stopped, MaxTime, Running, Faulted, Hung}"
  by (induction inps arbitrary: st) (auto split: option.splits sum.splits)

lemma capture_loop_append:
  "capture_loop start st (pre @ xs) =
     (if fst (capture_loop start st pre) = Running
      then capture_loop start (snd (capture_loop start st pre)) xs
      else capture_loop start st pre)"
  by (induction pre arbitrary: st) (auto split: option.splits sum.splits)

text \<open>The capture thread of a session, case by case.\<close>

lemma capture_no_device:
  assumes "snd (open_device (device env)) = None"
  shows "capture env = ([(''ERROR: Audio device failed'', 0)], NoDevice, initial_state)"
  using assms by (simp add: capture_def recording_thread_def)

lemma capture_no_params:
  assumes "snd (open_device (device env)) \<noteq> None" and "\<not> hw_params_ok (device env)"
  shows "capture env = ([], NoParams, initial_state)"
  using assms by (auto simp: capture_def recording_thread_def)

lemma capture_loop_run:
  assumes "snd (open_device (device env)) \<noteq> None" and "hw_params_ok (device env)"
  shows "capture env =
     ([(''READY'', 0), (''RECORDING'', 0)]
        @ (if fst (capture_loop (start_time env) (loop_start env) (inputs env)) = MaxTime
           then [(''MAX_TIME'', 0)] else []),
      capture_loop (start_time env) (loop_start env) (inputs env))"
  using assms
  by (auto simp: capture_def recording_thread_def loop_start_def split: prod.splits)

lemma capture_cases:
  obtains
    (no_device) "capture env = ([(''ERROR: Audio device failed'', 0)], NoDevice, initial_state)"
  | (no_params) "capture env = ([], NoParams, initial_state)"
  | (looped) e st where "capture env =
        ([(''READY'', 0), (''RECORDING'', 0)] @ (if e = MaxTime then [(''MAX_TIME'', 0)] else []), e, st)"
      and "e \<in> {Stopped, MaxTime, Running, Faulted, Hung}"
proof (cases "snd (open_device (device env)) = None")
  case True
  then show ?thesis using capture_no_device no_device by blast
next
  case False
  show ?thesis
  proof (cases "hw_params_ok (device env)")
    case False
    with \<open>snd (open_device (device env)) \<noteq> None\<close> show ?thesis
      using capture_no_params no_params by blast
  next
    case True
    obtain e st where l: "capture_loop (start_time env) (loop_start env) (inputs env) = (e, st)"
      by (cases "capture_loop (start_time env) (loop_start env) (inputs env)")
    have "e \<in> {Stopped, MaxTime, Running, Faulted, Hung}"
      using capture_loop_end[of "start_time env" "loop_start env" "inputs env"] l by simp
    moreover have "capture env =
        ([(''READY'', 0), (''RECORDING'', 0)] @ (if e = MaxTime then [(''MAX_TIME'', 0)] else []), e, st)"
      using capture_loop_run[OF \<open>snd (open_device (device env)) \<noteq> None\<close> True] l by simp
    ultimately show ?thesis using looped by blast
  qed
qed

lemma statuses_finish:
  "statuses (finish env ws st) = map fst ws @ ''PROCESSING'' # tail_of env st"
  by (simp add: finish_def statuses_def tail_of_def Let_def split: sum.splits option.splits)

lemma statuses_daemon:
  assumes "capture env = (ws, e, st)"
  shows "statuses (daemon env) =
     (if e \<in> {Running, Faulted, Hung} then ''CONNECTING'' # map fst ws
      else ''CONNECTING'' # map fst ws @ ''PROCESSING'' # tail_of env st)"
  using assms statuses_finish[of env "(''CONNECTING'', 0) # ws" st]
  by (auto simp: daemon_def statuses_def)

lemma tail_of_cases:
  "tail_of env st \<in> {[''NO_AUDIO''], [''UPLOADING''], [''UPLOADING'', ''COPIED''], [''UPLOADING'', ''FAILED'']}"
  by (simp add: tail_of_def split: sum.splits option.splits)

lemma tail_of_uploading: "''UPLOADING'' \<in> set (tail_of env st) \<Longrightarrow> size_b (audio st) \<noteq> 0"
  by (auto simp: tail_of_def split: if_splits)

lemma tail_of_copied:
  assumes "''COPIED'' \<in> set (tail_of env st)"
  shows "\<exists>t. transcribe_audio (upload env) (buffer_bytes st) = Inr (Some t)"
proof (cases "transcribe_audio (upload env) (buffer_bytes st)")
  case (Inl f)
  with assms show ?thesis by (simp add: tail_of_def split: if_splits)
next
  case (Inr r)
  with assms show ?thesis by (cases r) (simp_all add: tail_of_def split: if_splits)
qed

lemma tail_of_empty: "size_b (audio st) = 0 \<Longrightarrow> tail_of env st = [''NO_AUDIO'']"
  by (simp add: tail_of_def)

lemma request_daemon_empty:
  assumes "size_b (audio (captured env)) = 0"
  shows "request (daemon env) = None"
proof -
  obtain ws e st where c: "capture env = (ws, e, st)" by (cases "capture env") auto
  then have "st = captured env" by (simp add: captured_def)
  with assms c show ?thesis by (simp add: daemon_def finish_def Let_def)
qed

text \<open>
  \<^bold>\<open>Claim C2\<close> (as amended). In every session: \<^verbatim>\<open>UPLOADING\<close> is written only after
  \<^verbatim>\<open>PROCESSING\<close> and only when the audio buffer the capture thread left is not empty; when
  \<^verbatim>\<open>PROCESSING\<close> is written and that buffer is empty, the last status is \<^verbatim>\<open>NO_AUDIO\<close>,
  \<^verbatim>\<open>UPLOADING\<close> is never written and no request is sent; and \<^verbatim>\<open>COPIED\<close> is written only
  after \<^verbatim>\<open>UPLOADING\<close> and only when \<^verbatim>\<open>transcribe_audio\<close> returned a transcription: the
  text field was found. The transcription may be the empty string.
\<close>

theorem upload_needs_audio_copy_needs_result:
  "(''UPLOADING'' \<in> set (statuses (daemon env)) \<longrightarrow>
      precedes ''PROCESSING'' ''UPLOADING'' (statuses (daemon env))
      \<and> size_b (audio (captured env)) \<noteq> 0)
   \<and> (''PROCESSING'' \<in> set (statuses (daemon env)) \<and> size_b (audio (captured env)) = 0 \<longrightarrow>
      last (statuses (daemon env)) = ''NO_AUDIO''
      \<and> ''UPLOADING'' \<notin> set (statuses (daemon env))
      \<and> request (daemon env) = None)
   \<and> (''COPIED'' \<in> set (statuses (daemon env)) \<longrightarrow>
      precedes ''UPLOADING'' ''COPIED'' (statuses (daemon env))
      \<and> (\<exists>t. transcribe_audio (upload env) (buffer_bytes (captured env)) = Inr (Some t)))"
proof -
  obtain ws e st where c: "capture env = (ws, e, st)" by (cases "capture env") auto
  then have st: "captured env = st" by (simp add: captured_def)
  note S = statuses_daemon[OF c]
  have W: "map fst ws \<in> {[''ERROR: Audio device failed''], [], [''READY'', ''RECORDING''],
                          [''READY'', ''RECORDING'', ''MAX_TIME'']}"
    using c by (cases env rule: capture_cases) (auto split: if_splits)
  have T: "tail_of env st \<in> {[''NO_AUDIO''], [''UPLOADING''], [''UPLOADING'', ''COPIED''],
                             [''UPLOADING'', ''FAILED'']}"
    by (rule tail_of_cases)
  have up: "''UPLOADING'' \<in> set (tail_of env st) \<Longrightarrow> size_b (audio st) \<noteq> 0"
    by (rule tail_of_uploading)
  have co: "''COPIED'' \<in> set (tail_of env st) \<Longrightarrow>
     \<exists>t. transcribe_audio (upload env) (buffer_bytes st) = Inr (Some t)"
    by (rule tail_of_copied)
  have em: "size_b (audio st) = 0 \<Longrightarrow> tail_of env st = [''NO_AUDIO'']"
    by (rule tail_of_empty)
  have A: "''UPLOADING'' \<in> set (statuses (daemon env)) \<longrightarrow>
      precedes ''PROCESSING'' ''UPLOADING'' (statuses (daemon env))
      \<and> size_b (audio (captured env)) \<noteq> 0"
    using W T up unfolding S st precedes_def by (cases "e \<in> {Running, Faulted, Hung}") auto
  have B: "''PROCESSING'' \<in> set (statuses (daemon env)) \<and> size_b (audio (captured env)) = 0 \<longrightarrow>
      last (statuses (daemon env)) = ''NO_AUDIO''
      \<and> ''UPLOADING'' \<notin> set (statuses (daemon env))"
    using W em unfolding S st by (cases "e \<in> {Running, Faulted, Hung}") auto
  have C: "''COPIED'' \<in> set (statuses (daemon env)) \<longrightarrow>
      precedes ''UPLOADING'' ''COPIED'' (statuses (daemon env))
      \<and> (\<exists>t. transcribe_audio (upload env) (buffer_bytes (captured env)) = Inr (Some t))"
    using W T co unfolding S st precedes_def by (cases "e \<in> {Running, Faulted, Hung}") auto
  show ?thesis using A B C request_daemon_empty[of env] by blast
qed

lemma empty_text_capture:
  "capture empty_text_run =
     ([(''READY'', 0), (''RECORDING'', 0)], Stopped,
      \<lparr>mem = Map.empty(1 \<mapsto> [100, 0, 200, 0] @ replicate 319996 0),
       audio = \<lparr>data = 1, size_b = 4, capacity = 320000\<rparr>, current_level = 25 / 4096\<rparr>)"
  by (simp add: empty_text_run_def capture_def recording_thread_def open_device_def
      init_audio_buffer_def malloc_def resize_def initial_state_def SAMPLE_RATE_def
      capture_step_def append_audio_buffer_def copy_in_def memcpy_def pcm_bytes_def
      amplitude_def MAX_RECORDING_TIME_def)

lemma empty_text_transcribe:
  "transcribe_audio (upload empty_text_run) bs = Inr (Some [])"
  by (simp add: empty_text_run_def transcribe_audio_def parse_response_def text_marker_def
      c_str_def NUL_def dquote_def unescape_loop.simps)

lemma empty_text_popen: "popen_ok empty_text_run"
  by (simp add: empty_text_run_def)

lemma empty_text_daemon:
  "statuses (daemon empty_text_run) =
     [''CONNECTING'', ''READY'', ''RECORDING'', ''PROCESSING'', ''UPLOADING'', ''COPIED'']"
  "clipboard (daemon empty_text_run) = Some []"
  using empty_text_transcribe empty_text_popen
  by (simp_all add: daemon_def finish_def statuses_def empty_text_capture Let_def)

text \<open>
  \<^bold>\<open>Claim C2\<close> as stated fails: the session \<open>empty_text_run\<close> reaches \<^verbatim>\<open>COPIED\<close> with
  an extracted result that is empty, and pipes the empty string to the clipboard. Line 648
  tests the pointer \<^verbatim>\<open>transcription\<close>, which \<^verbatim>\<open>transcribe_audio\<close> sets for a field of
  length 0 as well.
\<close>

theorem copied_with_empty_text:
  "''COPIED'' \<in> set (statuses (daemon empty_text_run))
   \<and> transcribe_audio (upload empty_text_run) (buffer_bytes (captured empty_text_run)) = Inr (Some [])
   \<and> clipboard (daemon empty_text_run) = Some []"
  using empty_text_daemon empty_text_transcribe by simp

text \<open>The amended claim at the same session.\<close>

theorem upload_needs_audio_copy_needs_result_witness:
  "''UPLOADING'' \<in> set (statuses (daemon empty_text_run))
   \<and> precedes ''PROCESSING'' ''UPLOADING'' (statuses (daemon empty_text_run))
   \<and> size_b (audio (captured empty_text_run)) \<noteq> 0
   \<and> ''COPIED'' \<in> set (statuses (daemon empty_text_run))
   \<and> precedes ''UPLOADING'' ''COPIED'' (statuses (daemon empty_text_run))
   \<and> (\<exists>t. transcribe_audio (upload empty_text_run) (buffer_bytes (captured empty_text_run)) = Inr (Some t))"
proof -
  have u: "''UPLOADING'' \<in> set (statuses (daemon empty_text_run))"
    and c: "''COPIED'' \<in> set (statuses (daemon empty_text_run))"
    by (simp_all add: empty_text_daemon)
  from upload_needs_audio_copy_needs_result[of empty_text_run] u c show ?thesis by blast
qed

lemma loop_start_inputs [simp]: "loop_start (env\<lparr>inputs := xs\<rparr>) = loop_start env"
  by (simp add: loop_start_def)

lemma capture_Running_device:
  assumes "capture env = (ws, Running, st)"
  shows "snd (open_device (device env)) \<noteq> None \<and> hw_params_ok (device env)"
proof (rule ccontr)
  assume "\<not> ?thesis"
  then consider "snd (open_device (device env)) = None"
    | "snd (open_device (device env)) \<noteq> None" "\<not> hw_params_ok (device env)" by blast
  then show False
  proof cases
    case 1
    from capture_no_device[OF 1] assms show False by simp
  next
    case 2
    from capture_no_params[OF 2] assms show False by simp
  qed
qed

lemma finish_fields:
  "ending (finish env ws st) = ending (finish env ws' st)"
  "request (finish env ws st) = request (finish env ws' st)"
  "clipboard (finish env ws st) = clipboard (finish env ws' st)"
  "cleanup (finish env ws st) = cleanup (finish env ws' st)"
proof -
  have "ending (finish env ws st) = ending (finish env ws' st)
      \<and> request (finish env ws st) = request (finish env ws' st)
      \<and> clipboard (finish env ws st) = clipboard (finish env ws' st)
      \<and> cleanup (finish env ws st) = cleanup (finish env ws' st)"
  proof (cases "size_b (audio st) > 0")
    case False
    then show ?thesis by (simp add: finish_def Let_def)
  next
    case True
    show ?thesis
    proof (cases "transcribe_audio (upload env) (buffer_bytes st)")
      case (Inl f)
      with True show ?thesis by (simp add: finish_def Let_def)
    next
      case (Inr r)
      with True show ?thesis by (cases r) (simp_all add: finish_def Let_def)
    qed
  qed
  then show "ending (finish env ws st) = ending (finish env ws' st)"
    "request (finish env ws st) = request (finish env ws' st)"
    "clipboard (finish env ws st) = clipboard (finish env ws' st)"
    "cleanup (finish env ws st) = cleanup (finish env ws' st)" by simp_all
qed

lemma finish_inputs [simp]: "finish (env\<lparr>inputs := xs\<rparr>) ws st = finish env ws st"
  by (simp add: finish_def Let_def cong: sum.case_cong option.case_cong if_cong)

lemma tail_of_inputs [simp]: "tail_of (env\<lparr>inputs := xs\<rparr>) st = tail_of env st"
  by (simp add: tail_of_def)

text \<open>What the monitor thread writes while the flag it reads stays as it is.\<close>

lemma monitor_thread_clear:
  "monitor_thread (replicate n (False, l)) = replicate n (''RECORDING'', l)"
  by (induction n) simp_all

lemma monitor_thread_set: "monitor_thread (replicate n (True, l)) = []"
  by (cases n) simp_all

lemma capture_Running_loop:
  assumes "capture (env\<lparr>inputs := pre\<rparr>) = (ws, Running, st)"
  shows "snd (open_device (device env)) \<noteq> None" and "hw_params_ok (device env)"
    and "capture_loop (start_time env) (loop_start env) pre = (Running, st)"
    and "ws = [(''READY'', 0), (''RECORDING'', 0)]"
proof -
  from capture_Running_device[OF assms]
  show dev: "snd (open_device (device env)) \<noteq> None" "hw_params_ok (device env)" by simp_all
  obtain e st2 where l: "capture_loop (start_time env) (loop_start env) pre = (e, st2)"
    by (cases "capture_loop (start_time env) (loop_start env) pre")
  from capture_loop_run[of "env\<lparr>inputs := pre\<rparr>"] dev assms l
  have "e = Running \<and> st2 = st \<and> ws = [(''READY'', 0), (''RECORDING'', 0)]"
    by (auto split: if_splits)
  with l show "capture_loop (start_time env) (loop_start env) pre = (Running, st)"
    and "ws = [(''READY'', 0), (''RECORDING'', 0)]" by simp_all
qed

lemma below_ceiling_continues:
  assumes "capture (env\<lparr>inputs := pre\<rparr>) = (ws, Running, st)"
    and "\<not> stop_flag inp" and "clock inp - start_time env \<le> 300"
  shows "capture (env\<lparr>inputs := pre @ [inp]\<rparr>) =
           (case capture_step st inp of
              None \<Rightarrow> (ws, Hung, st)
            | Some (Inl f) \<Rightarrow> (ws, Faulted, st)
            | Some (Inr st') \<Rightarrow> (ws, Running, st'))"
    and "statuses (daemon (env\<lparr>inputs := pre @ [inp]\<rparr>)) = [''CONNECTING'', ''READY'', ''RECORDING'']"
proof -
  let ?e = "env\<lparr>inputs := pre @ [inp]\<rparr>"
  note r = capture_Running_loop[OF assms(1)]
  have l: "capture_loop (start_time env) (loop_start env) (pre @ [inp]) =
           (case capture_step st inp of
              None \<Rightarrow> (Hung, st)
            | Some (Inl f) \<Rightarrow> (Faulted, st)
            | Some (Inr st') \<Rightarrow> (Running, st'))"
    using r(3) assms(2,3)
    by (simp add: capture_loop_append MAX_RECORDING_TIME_def split: option.splits sum.splits)
  obtain e st2 where c: "capture_loop (start_time env) (loop_start env) (pre @ [inp]) = (e, st2)"
    by (cases "capture_loop (start_time env) (loop_start env) (pre @ [inp])")
  have e: "e \<in> {Hung, Faulted, Running}"
    using l c by (auto split: option.splits sum.splits)
  then have nm: "e \<noteq> MaxTime" by auto
  have cap: "capture ?e = (ws, e, st2)"
    using capture_loop_run[of ?e] r(1,2,4) c nm by simp
  show "capture ?e =
           (case capture_step st inp of
              None \<Rightarrow> (ws, Hung, st)
            | Some (Inl f) \<Rightarrow> (ws, Faulted, st)
            | Some (Inr st') \<Rightarrow> (ws, Running, st'))"
    using cap l c by (auto split: option.splits sum.splits)
  show "statuses (daemon ?e) = [''CONNECTING'', ''READY'', ''RECORDING'']"
    using statuses_daemon[OF cap] e r(4) by auto
qed

lemma above_ceiling_ends:
  assumes "capture (env\<lparr>inputs := pre\<rparr>) = (ws, Running, st)"
    and "\<not> stop_flag inp" and "clock inp - start_time env > 300"
  shows "capture (env\<lparr>inputs := pre @ inp # rest\<rparr>)
           = ([(''READY'', 0), (''RECORDING'', 0), (''MAX_TIME'', 0)], MaxTime, st)"
    and "capture (env\<lparr>inputs := pre @ [inp\<lparr>stop_flag := True\<rparr>]\<rparr>)
           = ([(''READY'', 0), (''RECORDING'', 0)], Stopped, st)"
proof -
  let ?max = "env\<lparr>inputs := pre @ inp # rest\<rparr>"
  let ?stop = "env\<lparr>inputs := pre @ [inp\<lparr>stop_flag := True\<rparr>]\<rparr>"
  let ?s = "start_time env"
  note r = capture_Running_loop[OF assms(1)]
  have lm: "capture_loop ?s (loop_start env) (pre @ inp # rest) = (MaxTime, st)"
    using r(3) assms(2,3) by (simp add: capture_loop_append MAX_RECORDING_TIME_def)
  have ls: "capture_loop ?s (loop_start env) (pre @ [inp\<lparr>stop_flag := True\<rparr>]) = (Stopped, st)"
    using r(3) by (simp add: capture_loop_append)
  show "capture ?max = ([(''READY'', 0), (''RECORDING'', 0), (''MAX_TIME'', 0)], MaxTime, st)"
    using capture_loop_run[of ?max] r(1,2) lm by simp
  show "capture ?stop = ([(''READY'', 0), (''RECORDING'', 0)], Stopped, st)"
    using capture_loop_run[of ?stop] r(1,2) ls by simp
qed

text \<open>
  \<^bold>\<open>Claim C5\<close> (as amended). The capture loop is still running after the iterations
  \<open>pre\<close>, however many they are, and the next iteration reads the stop flag clear. When
  it reads a clock at most 300 seconds after the start, the loop goes on: the iteration
  reads and stores its frame, and no status is written. When it reads a clock more than
  300 seconds after the start, the loop ends in this iteration, whatever inputs would
  follow: the capture thread writes \<^verbatim>\<open>MAX_TIME\<close>, \<^verbatim>\<open>main\<close> writes \<^verbatim>\<open>PROCESSING\<close>,
  with no stop flag ever read as set, and \<^verbatim>\<open>main\<close> goes on exactly as in the session
  in which this iteration reads the stop flag set instead: the same buffer, the same
  statuses after \<^verbatim>\<open>PROCESSING\<close>, the same request, clipboard, cleanup and exit. The
  status file differs between the two sessions: after the ceiling the stop flag is clear
  until line 639, and every test of the monitor thread until then writes \<^verbatim>\<open>RECORDING\<close>,
  after \<^verbatim>\<open>MAX_TIME\<close> and after \<^verbatim>\<open>PROCESSING\<close>; after a stop it writes nothing.
\<close>

theorem ceiling_ends_recording:
  assumes "capture (env\<lparr>inputs := pre\<rparr>) = (ws, Running, st)" and "\<not> stop_flag inp"
  shows
   "(clock inp - start_time env \<le> 300 \<longrightarrow>
       capture (env\<lparr>inputs := pre @ [inp]\<rparr>) =
         (case capture_step st inp of
            None \<Rightarrow> (ws, Hung, st)
          | Some (Inl f) \<Rightarrow> (ws, Faulted, st)
          | Some (Inr st') \<Rightarrow> (ws, Running, st'))
     \<and> statuses (daemon (env\<lparr>inputs := pre @ [inp]\<rparr>)) = [''CONNECTING'', ''READY'', ''RECORDING''])
  \<and> (300 < clock inp - start_time env \<longrightarrow>
       (\<exists>tail.
          statuses (daemon (env\<lparr>inputs := pre @ inp # rest\<rparr>))
            = [''CONNECTING'', ''READY'', ''RECORDING'', ''MAX_TIME'', ''PROCESSING''] @ tail
        \<and> statuses (daemon (env\<lparr>inputs := pre @ [inp\<lparr>stop_flag := True\<rparr>]\<rparr>))
            = [''CONNECTING'', ''READY'', ''RECORDING'', ''PROCESSING''] @ tail
        \<and> (\<forall>n1 n2.
              closing_writes (env\<lparr>inputs := pre @ inp # rest\<rparr>) n1 n2
                = (''MAX_TIME'', 0) # replicate n1 (''RECORDING'', current_level st)
                  @ (''PROCESSING'', 0) # replicate n2 (''RECORDING'', current_level st)
                  @ map (\<lambda>s. (s, 0)) tail
            \<and> closing_writes (env\<lparr>inputs := pre @ [inp\<lparr>stop_flag := True\<rparr>]\<rparr>) n1 n2
                = (''PROCESSING'', 0) # map (\<lambda>s. (s, 0)) tail))
     \<and> captured (env\<lparr>inputs := pre @ inp # rest\<rparr>) = st
     \<and> captured (env\<lparr>inputs := pre @ [inp\<lparr>stop_flag := True\<rparr>]\<rparr>) = st
     \<and> ending (daemon (env\<lparr>inputs := pre @ inp # rest\<rparr>))
         = ending (daemon (env\<lparr>inputs := pre @ [inp\<lparr>stop_flag := True\<rparr>]\<rparr>))
     \<and> request (daemon (env\<lparr>inputs := pre @ inp # rest\<rparr>))
         = request (daemon (env\<lparr>inputs := pre @ [inp\<lparr>stop_flag := True\<rparr>]\<rparr>))
     \<and> clipboard (daemon (env\<lparr>inputs := pre @ inp # rest\<rparr>))
         = clipboard (daemon (env\<lparr>inputs := pre @ [inp\<lparr>stop_flag := True\<rparr>]\<rparr>))
     \<and> cleanup (daemon (env\<lparr>inputs := pre @ inp # rest\<rparr>))
         = cleanup (daemon (env\<lparr>inputs := pre @ [inp\<lparr>stop_flag := True\<rparr>]\<rparr>)))"
proof (intro conjI impI)
  assume b: "clock inp - start_time env \<le> 300"
  from below_ceiling_continues[OF assms b]
  show "capture (env\<lparr>inputs := pre @ [inp]\<rparr>) =
         (case capture_step st inp of
            None \<Rightarrow> (ws, Hung, st)
          | Some (Inl f) \<Rightarrow> (ws, Faulted, st)
          | Some (Inr st') \<Rightarrow> (ws, Running, st'))"
    and "statuses (daemon (env\<lparr>inputs := pre @ [inp]\<rparr>)) = [''CONNECTING'', ''READY'', ''RECORDING'']"
    by simp_all
next
  let ?max = "env\<lparr>inputs := pre @ inp # rest\<rparr>"
  let ?stop = "env\<lparr>inputs := pre @ [inp\<lparr>stop_flag := True\<rparr>]\<rparr>"
  assume a: "300 < clock inp - start_time env"
  note c = above_ceiling_ends(1)[OF assms a, of rest] above_ceiling_ends(2)[OF assms a]
  have dm: "daemon ?max
      = finish env [(''CONNECTING'', 0), (''READY'', 0), (''RECORDING'', 0), (''MAX_TIME'', 0)] st"
    by (simp add: daemon_def c(1))
  have ds: "daemon ?stop = finish env [(''CONNECTING'', 0), (''READY'', 0), (''RECORDING'', 0)] st"
    by (simp add: daemon_def c(2))
  have sm: "statuses (daemon ?max)
      = [''CONNECTING'', ''READY'', ''RECORDING'', ''MAX_TIME'', ''PROCESSING''] @ tail_of env st"
    by (simp add: dm statuses_finish)
  have ss: "statuses (daemon ?stop)
      = [''CONNECTING'', ''READY'', ''RECORDING'', ''PROCESSING''] @ tail_of env st"
    by (simp add: ds statuses_finish)
  have wm: "closing_writes ?max n1 n2
                = (''MAX_TIME'', 0) # replicate n1 (''RECORDING'', current_level st)
                  @ (''PROCESSING'', 0) # replicate n2 (''RECORDING'', current_level st)
                  @ map (\<lambda>s. (s, 0)) (tail_of env st)" for n1 n2
    by (simp add: closing_writes_def c(1) monitor_thread_clear)
  have wst: "closing_writes ?stop n1 n2 = (''PROCESSING'', 0) # map (\<lambda>s. (s, 0)) (tail_of env st)"
    for n1 n2
    by (simp add: closing_writes_def c(2) monitor_thread_set)
  show "\<exists>tail.
          statuses (daemon ?max)
            = [''CONNECTING'', ''READY'', ''RECORDING'', ''MAX_TIME'', ''PROCESSING''] @ tail
        \<and> statuses (daemon ?stop)
            = [''CONNECTING'', ''READY'', ''RECORDING'', ''PROCESSING''] @ tail
        \<and> (\<forall>n1 n2.
              closing_writes ?max n1 n2
                = (''MAX_TIME'', 0) # replicate n1 (''RECORDING'', current_level st)
                  @ (''PROCESSING'', 0) # replicate n2 (''RECORDING'', current_level st)
                  @ map (\<lambda>s. (s, 0)) tail
            \<and> closing_writes ?stop n1 n2 = (''PROCESSING'', 0) # map (\<lambda>s. (s, 0)) tail)"
    using sm ss wm wst by blast
  show "captured ?max = st" "captured ?stop = st"
    by (simp_all add: captured_def c)
  show "ending (daemon ?max) = ending (daemon ?stop)"
    "request (daemon ?max) = request (daemon ?stop)"
    "clipboard (daemon ?max) = clipboard (daemon ?stop)"
    "cleanup (daemon ?max) = cleanup (daemon ?stop)"
    unfolding dm ds by (rule finish_fields)+
qed

lemma ceiling_run_started:
  "capture (ceiling_run\<lparr>inputs := []\<rparr>) =
     ([(''READY'', 0), (''RECORDING'', 0)], Running, loop_start ceiling_run)"
  by (simp add: ceiling_run_def capture_def recording_thread_def open_device_def loop_start_def
      init_audio_buffer_def malloc_def resize_def initial_state_def SAMPLE_RATE_def)

lemma at_ceiling_step:
  "capture_step (loop_start ceiling_run) at_ceiling = Some (Inr one_frame)"
  by (simp add: ceiling_run_def at_ceiling_def one_frame_def loop_start_def
      init_audio_buffer_def malloc_def resize_def initial_state_def SAMPLE_RATE_def
      capture_step_def append_audio_buffer_def copy_in_def memcpy_def pcm_bytes_def
      amplitude_def)

lemma ceiling_run_tail: "tail_of ceiling_run one_frame = [''UPLOADING'', ''FAILED'']"
  by (simp add: tail_of_def ceiling_run_def one_frame_def transcribe_audio_def)

lemma one_frame_level: "current_level one_frame = 25 / 4096"
  by (simp add: one_frame_def)

lemma ceiling_run_capture:
  "capture ceiling_run =
     ([(''READY'', 0), (''RECORDING'', 0), (''MAX_TIME'', 0)], MaxTime, one_frame)"
  by (simp add: ceiling_run_def at_ceiling_def past_ceiling_def one_frame_def capture_def
      recording_thread_def open_device_def
      init_audio_buffer_def malloc_def resize_def initial_state_def SAMPLE_RATE_def
      capture_step_def append_audio_buffer_def copy_in_def memcpy_def pcm_bytes_def
      amplitude_def MAX_RECORDING_TIME_def)

lemma stopped_run_capture:
  "capture stopped_run = ([(''READY'', 0), (''RECORDING'', 0)], Stopped, one_frame)"
  by (simp add: stopped_run_def ceiling_run_def at_ceiling_def past_ceiling_def one_frame_def
      capture_def recording_thread_def open_device_def
      init_audio_buffer_def malloc_def resize_def initial_state_def SAMPLE_RATE_def
      capture_step_def append_audio_buffer_def copy_in_def memcpy_def pcm_bytes_def
      amplitude_def MAX_RECORDING_TIME_def)

lemma stopped_run_tail: "tail_of stopped_run st = tail_of ceiling_run st"
  by (simp add: stopped_run_def)

text \<open>
  \<^bold>\<open>Claim C5\<close> as stated fails: in the session \<open>ceiling_run\<close> nothing sets the stop
  flag and the second iteration reads the clock 301 seconds after the start. The status
  does not go from \<^verbatim>\<open>MAX_TIME\<close> to \<^verbatim>\<open>PROCESSING\<close> and on as after a stop: a test of the
  monitor thread between lines 342 and 636 puts \<^verbatim>\<open>RECORDING\<close> after \<^verbatim>\<open>MAX_TIME\<close>, and
  the four tests during the 200 ms of line 637 put \<^verbatim>\<open>RECORDING\<close> after
  \<^verbatim>\<open>PROCESSING\<close>. In \<open>stopped_run\<close>, with the same tests, \<^verbatim>\<open>PROCESSING\<close> stays until
  \<^verbatim>\<open>UPLOADING\<close>.
\<close>

theorem monitor_rewrites_recording_after_max_time:
  "map stop_flag (inputs ceiling_run) = [False, False]
   \<and> map (\<lambda>i. clock i - start_time ceiling_run) (inputs ceiling_run) = [300, 301]
   \<and> statuses (daemon ceiling_run)
       = [''CONNECTING'', ''READY'', ''RECORDING'', ''MAX_TIME'', ''PROCESSING'', ''UPLOADING'', ''FAILED'']
   \<and> closing_writes ceiling_run 1 4
       = [(''MAX_TIME'', 0), (''RECORDING'', 25 / 4096), (''PROCESSING'', 0),
          (''RECORDING'', 25 / 4096), (''RECORDING'', 25 / 4096), (''RECORDING'', 25 / 4096),
          (''RECORDING'', 25 / 4096), (''UPLOADING'', 0), (''FAILED'', 0)]
   \<and> map stop_flag (inputs stopped_run) = [False, True]
   \<and> closing_writes stopped_run 1 4 = [(''PROCESSING'', 0), (''UPLOADING'', 0), (''FAILED'', 0)]"
proof -
  have "map stop_flag (inputs ceiling_run) = [False, False]"
    "map (\<lambda>i. clock i - start_time ceiling_run) (inputs ceiling_run) = [300, 301]"
    "map stop_flag (inputs stopped_run) = [False, True]"
    by (simp_all add: stopped_run_def ceiling_run_def at_ceiling_def past_ceiling_def)
  moreover have "statuses (daemon ceiling_run)
       = [''CONNECTING'', ''READY'', ''RECORDING'', ''MAX_TIME'', ''PROCESSING'', ''UPLOADING'', ''FAILED'']"
    using statuses_daemon[OF ceiling_run_capture] by (simp add: ceiling_run_tail)
  moreover have "closing_writes ceiling_run 1 4
       = [(''MAX_TIME'', 0), (''RECORDING'', 25 / 4096), (''PROCESSING'', 0),
          (''RECORDING'', 25 / 4096), (''RECORDING'', 25 / 4096), (''RECORDING'', 25 / 4096),
          (''RECORDING'', 25 / 4096), (''UPLOADING'', 0), (''FAILED'', 0)]"
    by (simp add: closing_writes_def ceiling_run_capture ceiling_run_tail one_frame_level
        monitor_thread_clear numeral_eq_Suc)
  moreover have "closing_writes stopped_run 1 4
       = [(''PROCESSING'', 0), (''UPLOADING'', 0), (''FAILED'', 0)]"
    by (simp add: closing_writes_def stopped_run_capture stopped_run_tail ceiling_run_tail
        monitor_thread_set)
  ultimately show ?thesis by simp
qed

text \<open>
  The amended claim at the same session: the iteration at 300 seconds goes on, the
  iteration at 301 seconds ends the loop.
\<close>

theorem ceiling_ends_recording_witness:
  "clock at_ceiling - start_time ceiling_run = 300
   \<and> capture (ceiling_run\<lparr>inputs := [] @ [at_ceiling]\<rparr>)
       = ([(''READY'', 0), (''RECORDING'', 0)], Running, one_frame)
   \<and> statuses (daemon (ceiling_run\<lparr>inputs := [] @ [at_ceiling]\<rparr>))
       = [''CONNECTING'', ''READY'', ''RECORDING'']
   \<and> clock past_ceiling - start_time ceiling_run = 301
   \<and> statuses (daemon (ceiling_run\<lparr>inputs := [at_ceiling] @ past_ceiling # []\<rparr>))
       = [''CONNECTING'', ''READY'', ''RECORDING'', ''MAX_TIME'', ''PROCESSING'', ''UPLOADING'', ''FAILED'']
   \<and> statuses (daemon (ceiling_run\<lparr>inputs := [at_ceiling] @ [past_ceiling\<lparr>stop_flag := True\<rparr>]\<rparr>))
       = [''CONNECTING'', ''READY'', ''RECORDING'', ''PROCESSING'', ''UPLOADING'', ''FAILED'']
   \<and> closing_writes (ceiling_run\<lparr>inputs := [at_ceiling] @ past_ceiling # []\<rparr>) 0 2
       = [(''MAX_TIME'', 0), (''PROCESSING'', 0), (''RECORDING'', 25 / 4096),
          (''RECORDING'', 25 / 4096), (''UPLOADING'', 0), (''FAILED'', 0)]
   \<and> closing_writes (ceiling_run\<lparr>inputs := [at_ceiling] @ [past_ceiling\<lparr>stop_flag := True\<rparr>]\<rparr>) 0 2
       = [(''PROCESSING'', 0), (''UPLOADING'', 0), (''FAILED'', 0)]"
proof -
  let ?ws = "[(''READY'', 0 :: rat), (''RECORDING'', 0)]"
  let ?max = "ceiling_run\<lparr>inputs := [at_ceiling] @ past_ceiling # []\<rparr>"
  let ?stop = "ceiling_run\<lparr>inputs := [at_ceiling] @ [past_ceiling\<lparr>stop_flag := True\<rparr>]\<rparr>"
  have a2: "\<not> stop_flag at_ceiling" by (simp add: at_ceiling_def)
  have a3: "clock at_ceiling - start_time ceiling_run = 300"
    by (simp add: at_ceiling_def ceiling_run_def)
  from ceiling_ends_recording[OF ceiling_run_started a2, of "[]"] a3
  have A: "capture (ceiling_run\<lparr>inputs := [] @ [at_ceiling]\<rparr>) = (?ws, Running, one_frame)"
    and A2: "statuses (daemon (ceiling_run\<lparr>inputs := [] @ [at_ceiling]\<rparr>))
       = [''CONNECTING'', ''READY'', ''RECORDING'']"
    by (simp_all add: at_ceiling_step)
  have b1: "capture (ceiling_run\<lparr>inputs := [at_ceiling]\<rparr>) = (?ws, Running, one_frame)"
    using A by simp
  have b2: "\<not> stop_flag past_ceiling" by (simp add: past_ceiling_def)
  have b3: "clock past_ceiling - start_time ceiling_run = 301"
    by (simp add: past_ceiling_def ceiling_run_def)
  have b4: "300 < clock past_ceiling - start_time ceiling_run" using b3 by simp
  from ceiling_ends_recording[OF b1 b2, of "[]"] b4
  obtain tail where
    sm: "statuses (daemon ?max)
          = [''CONNECTING'', ''READY'', ''RECORDING'', ''MAX_TIME'', ''PROCESSING''] @ tail"
    and ss: "statuses (daemon ?stop) = [''CONNECTING'', ''READY'', ''RECORDING'', ''PROCESSING''] @ tail"
    and w: "\<forall>n1 n2. closing_writes ?max n1 n2
                = (''MAX_TIME'', 0) # replicate n1 (''RECORDING'', current_level one_frame)
                  @ (''PROCESSING'', 0) # replicate n2 (''RECORDING'', current_level one_frame)
                  @ map (\<lambda>s. (s, 0)) tail
            \<and> closing_writes ?stop n1 n2 = (''PROCESSING'', 0) # map (\<lambda>s. (s, 0)) tail"
    by blast
  have "statuses (daemon stopped_run)
       = [''CONNECTING'', ''READY'', ''RECORDING'', ''PROCESSING'', ''UPLOADING'', ''FAILED'']"
    using statuses_daemon[OF stopped_run_capture]
    by (simp add: stopped_run_tail ceiling_run_tail)
  then have "statuses (daemon ?stop)
       = [''CONNECTING'', ''READY'', ''RECORDING'', ''PROCESSING'', ''UPLOADING'', ''FAILED'']"
    by (simp add: stopped_run_def)
  with ss have t: "tail = [''UPLOADING'', ''FAILED'']" by simp
  from w have wm: "closing_writes ?max 0 2
                = (''MAX_TIME'', 0) # replicate 0 (''RECORDING'', current_level one_frame)
                  @ (''PROCESSING'', 0) # replicate 2 (''RECORDING'', current_level one_frame)
                  @ map (\<lambda>s. (s, 0)) tail"
    and wst: "closing_writes ?stop 0 2 = (''PROCESSING'', 0) # map (\<lambda>s. (s, 0)) tail"
    by blast+
  have m: "closing_writes ?max 0 2
       = [(''MAX_TIME'', 0), (''PROCESSING'', 0), (''RECORDING'', 25 / 4096),
          (''RECORDING'', 25 / 4096), (''UPLOADING'', 0), (''FAILED'', 0)]"
    unfolding wm t by (simp add: one_frame_level numeral_eq_Suc)
  have s: "closing_writes ?stop 0 2 = [(''PROCESSING'', 0), (''UPLOADING'', 0), (''FAILED'', 0)]"
    unfolding wst t by simp
  show ?thesis using a3 A A2 b3 sm ss t m s by simp
qed

lemma open_device_cases:
  "(snd_pcm_open dev ''plughw:0,0'' \<longrightarrow> open_device dev = ([''plughw:0,0''], Some ''plughw:0,0''))
   \<and> (\<not> snd_pcm_open dev ''plughw:0,0'' \<and> snd_pcm_open dev ''default'' \<longrightarrow>
        open_device dev = ([''plughw:0,0'', ''default''], Some ''default''))
   \<and> (\<not> snd_pcm_open dev ''plughw:0,0'' \<and> \<not> snd_pcm_open dev ''default'' \<longrightarrow>
        open_device dev = ([''plughw:0,0'', ''default''], None))"
  by (simp add: open_device_def)

lemma monitor_thread_statuses: "fst ` set (monitor_thread polls) \<subseteq> {''RECORDING''}"
proof (induction polls)
  case Nil
  then show ?case by simp
next
  case (Cons p polls)
  then show ?case by (cases p) auto
qed

text \<open>
  \<^bold>\<open>Claim C6\<close> (as amended). \<^verbatim>\<open>plughw:0,0\<close> is tried first and \<^verbatim>\<open>default\<close> only when
  it cannot be opened. When neither can be opened, the capture thread writes one status
  that begins with \<^verbatim>\<open>ERROR\<close> and returns without entering the capture loop; the
  capture thread and \<^verbatim>\<open>main\<close> write neither \<^verbatim>\<open>READY\<close> nor \<^verbatim>\<open>RECORDING\<close>; the
  buffer is never initialised and nothing is appended; no request is sent; the session
  ends with \<^verbatim>\<open>PROCESSING\<close>, \<^verbatim>\<open>NO_AUDIO\<close>, the cleanup and exit code 0. A
  \<^verbatim>\<open>RECORDING\<close> status can still reach the status file, and only from the monitor
  thread.
\<close>

theorem no_device_no_capture:
  "(snd_pcm_open (device env) ''plughw:0,0'' \<longrightarrow>
      open_device (device env) = ([''plughw:0,0''], Some ''plughw:0,0''))
   \<and> (\<not> snd_pcm_open (device env) ''plughw:0,0'' \<and> snd_pcm_open (device env) ''default'' \<longrightarrow>
      open_device (device env) = ([''plughw:0,0'', ''default''], Some ''default''))
   \<and> (\<not> snd_pcm_open (device env) ''plughw:0,0'' \<and> \<not> snd_pcm_open (device env) ''default'' \<longrightarrow>
      open_device (device env) = ([''plughw:0,0'', ''default''], None)
      \<and> (\<exists>s. writes (daemon env)
                = [(''CONNECTING'', 0), (s, 0), (''PROCESSING'', 0), (''NO_AUDIO'', 0)]
             \<and> take 5 s = ''ERROR'')
      \<and> ''READY'' \<notin> set (statuses (daemon env))
      \<and> ''RECORDING'' \<notin> set (statuses (daemon env))
      \<and> fst (snd (capture env)) = NoDevice
      \<and> captured env = initial_state
      \<and> request (daemon env) = None
      \<and> clipboard (daemon env) = None
      \<and> ending (daemon env) = Exited 0
      \<and> cleanup (daemon env)
           = [Free_audio_buffer, Free_api_key, Curl_global_cleanup, Unlink_pidfile]
             @ (if g_status_open env then [Close_status_file, Unlink_status_file] else [])
      \<and> (\<forall>polls. session_statuses env polls \<subseteq> set (statuses (daemon env)) \<union> {''RECORDING''}))"
proof -
  have "open_device (device env) = ([''plughw:0,0'', ''default''], None)
      \<and> (\<exists>s. writes (daemon env)
                = [(''CONNECTING'', 0), (s, 0), (''PROCESSING'', 0), (''NO_AUDIO'', 0)]
             \<and> take 5 s = ''ERROR'')
      \<and> ''READY'' \<notin> set (statuses (daemon env))
      \<and> ''RECORDING'' \<notin> set (statuses (daemon env))
      \<and> fst (snd (capture env)) = NoDevice
      \<and> captured env = initial_state
      \<and> request (daemon env) = None
      \<and> clipboard (daemon env) = None
      \<and> ending (daemon env) = Exited 0
      \<and> cleanup (daemon env)
           = [Free_audio_buffer, Free_api_key, Curl_global_cleanup, Unlink_pidfile]
             @ (if g_status_open env then [Close_status_file, Unlink_status_file] else [])
      \<and> (\<forall>polls. session_statuses env polls \<subseteq> set (statuses (daemon env)) \<union> {''RECORDING''})"
    if no: "\<not> snd_pcm_open (device env) ''plughw:0,0''" "\<not> snd_pcm_open (device env) ''default''"
  proof -
    have od: "open_device (device env) = ([''plughw:0,0'', ''default''], None)"
      using no by (simp add: open_device_def)
    then have c: "capture env = ([(''ERROR: Audio device failed'', 0)], NoDevice, initial_state)"
      by (intro capture_no_device) simp
    have sz: "size_b (audio initial_state) = 0" by (simp add: initial_state_def)
    have d: "daemon env =
       \<lparr>writes = [(''CONNECTING'', 0), (''ERROR: Audio device failed'', 0), (''PROCESSING'', 0),
                  (''NO_AUDIO'', 0)],
        ending = Exited 0, request = None, clipboard = None,
        cleanup = [Free_audio_buffer, Free_api_key, Curl_global_cleanup, Unlink_pidfile]
             @ (if g_status_open env then [Close_status_file, Unlink_status_file] else [])\<rparr>"
      using sz by (simp add: daemon_def c finish_def Let_def)
    have st: "statuses (daemon env)
        = [''CONNECTING'', ''ERROR: Audio device failed'', ''PROCESSING'', ''NO_AUDIO'']"
      by (simp add: d statuses_def)
    have mon: "session_statuses env polls \<subseteq> set (statuses (daemon env)) \<union> {''RECORDING''}" for polls
      using monitor_thread_statuses[of polls] unfolding session_statuses_def by blast
    have "\<exists>s. writes (daemon env)
                = [(''CONNECTING'', 0), (s, 0), (''PROCESSING'', 0), (''NO_AUDIO'', 0)]
             \<and> take 5 s = ''ERROR''"
      by (intro exI[of _ "''ERROR: Audio device failed''"]) (simp add: d)
    moreover have "''READY'' \<notin> set (statuses (daemon env))"
      "''RECORDING'' \<notin> set (statuses (daemon env))" by (simp_all add: st)
    moreover have "fst (snd (capture env)) = NoDevice" "captured env = initial_state"
      by (simp_all add: c captured_def)
    moreover have "request (daemon env) = None" "clipboard (daemon env) = None"
      "ending (daemon env) = Exited 0"
      "cleanup (daemon env)
           = [Free_audio_buffer, Free_api_key, Curl_global_cleanup, Unlink_pidfile]
             @ (if g_status_open env then [Close_status_file, Unlink_status_file] else [])"
      by (simp_all add: d)
    ultimately show ?thesis using od mon by blast
  qed
  then show ?thesis using open_device_cases[of "device env"] by blast
qed

text \<open>
  \<^bold>\<open>Claim C6\<close> as stated fails: no device can be opened, and the session still reaches
  \<^verbatim>\<open>RECORDING\<close>. The monitor thread writes \<^verbatim>\<open>RECORDING\<close> whenever it reads the stop flag
  clear, and after a device failure the flag stays clear until line 639.
\<close>

theorem monitor_writes_recording_without_device:
  "\<not> snd_pcm_open (device no_device_run) ''plughw:0,0''
   \<and> \<not> snd_pcm_open (device no_device_run) ''default''
   \<and> ''RECORDING'' \<in> session_statuses no_device_run [(False, 0), (True, 0)]"
  by (simp add: no_device_run_def session_statuses_def)

text \<open>The amended claim at the same session.\<close>

theorem no_device_no_capture_witness:
  "\<not> snd_pcm_open (device no_device_run) ''plughw:0,0''
   \<and> \<not> snd_pcm_open (device no_device_run) ''default''
   \<and> open_device (device no_device_run) = ([''plughw:0,0'', ''default''], None)
   \<and> ''RECORDING'' \<notin> set (statuses (daemon no_device_run))
   \<and> captured no_device_run = initial_state
   \<and> request (daemon no_device_run) = None
   \<and> ending (daemon no_device_run) = Exited 0"
proof -
  have h: "\<not> snd_pcm_open (device no_device_run) ''plughw:0,0''"
    "\<not> snd_pcm_open (device no_device_run) ''default''"
    by (simp_all add: no_device_run_def)
  with no_device_no_capture[of no_device_run] show ?thesis by blast
qed

text \<open>
  \<^bold>\<open>Claim C7.\<close> One write to the status file does not have a status of the table. When
  no device can be opened, line 310 calls \<^verbatim>\<open>update_status\<close> with the status
  \<^verbatim>\<open>ERROR: Audio device failed\<close>; the file then holds the line
  \<^verbatim>\<open>ERROR: Audio device failed|0.00|00:00\<close>, whose first field is not one of the ten
  statuses the visualizer knows, \<^verbatim>\<open>ERROR\<close> among them.
\<close>

theorem device_error_status_not_in_table:
  "(''ERROR: Audio device failed'', 0) \<in> set (writes (daemon no_device_run))
   \<and> update_status (Some []) 1000 (start_time no_device_run) ''ERROR: Audio device failed'' 0
       = Some (''ERROR: Audio device failed|0.00|00:00'' @ [CHR 0x0A])
   \<and> status_field (''ERROR: Audio device failed|0.00|00:00'' @ [CHR 0x0A])
       = ''ERROR: Audio device failed''
   \<and> ''ERROR: Audio device failed'' \<notin> set status_text_keys"
proof -
  have "snd (open_device (device no_device_run)) = None"
    by (simp add: no_device_run_def open_device_def)
  from capture_no_device[OF this]
  have "(''ERROR: Audio device failed'', 0) \<in> set (writes (daemon no_device_run))"
    by (simp add: daemon_def finish_def Let_def initial_state_def)
  moreover have "update_status (Some []) 1000 (start_time no_device_run) ''ERROR: Audio device failed'' 0
       = Some (''ERROR: Audio device failed|0.00|00:00'' @ [CHR 0x0A])"
    by (simp add: no_device_run_def update_status_def status_line_def fmt_2f_def fmt_02ld_def
        fmt_ld_def c_div_def c_mod_def round_half_even_def show_nat.simps digit_char_def Let_def)
  moreover have "status_field (''ERROR: Audio device failed|0.00|00:00'' @ [CHR 0x0A])
       = ''ERROR: Audio device failed''"
    by (simp add: status_field_def)
  moreover have "''ERROR: Audio device failed'' \<notin> set status_text_keys"
    by (simp add: status_text_keys_def)
  ultimately show ?thesis by blast
qed

section \<open>The single instance\<close>

text \<open>
  \<^bold>\<open>Claim C1\<close> (as amended). With no identity file, a key, a fork that succeeds and an
  identity file that can be opened for writing, the invocation leaves the identity file
  with the process id of the daemon (the child), which runs the session, and sends no
  signal. With an identity file that names a positive process id which the probe
  reports, the invocation sends \<^verbatim>\<open>SIGUSR1\<close> to that process and nothing else, exits
  with 0, leaves the identity file as it is, and starts no daemon. With an identity file
  that names a process the probe does not report, \<^verbatim>\<open>check_running\<close> deletes the file
  and the invocation is the one with no identity file.
\<close>

theorem single_instance_toggle:
  "(pidfile env = None \<and> api_key env \<noteq> None \<and> fork_result env = Some child_pid \<and> pidfile_fopen env \<longrightarrow>
      pidfile_after (main env) = Some child_pid
      \<and> child (main env) = Some (daemon env)
      \<and> signals (main env) = []
      \<and> exit_code (main env) = 0)
   \<and> (pidfile env = Some pid \<and> 0 < pid \<and> kill_probe env pid \<longrightarrow>
      signals (main env) = [(pid, SIGUSR1)]
      \<and> exit_code (main env) = 0
      \<and> pidfile_after (main env) = Some pid
      \<and> child (main env) = None)
   \<and> (pidfile env = Some pid \<and> \<not> kill_probe env pid \<longrightarrow>
      check_running env = (0, None)
      \<and> main env = main (env\<lparr>pidfile := None\<rparr>))"
proof (intro conjI impI)
  assume a: "pidfile env = None \<and> api_key env \<noteq> None \<and> fork_result env = Some child_pid \<and> pidfile_fopen env"
  then have m: "main env = \<lparr>exit_code = 0, pidfile_after = Some child_pid, signals = [],
      child = Some (daemon env)\<rparr>"
    by (auto simp: main_def check_running_def)
  show "pidfile_after (main env) = Some child_pid" "child (main env) = Some (daemon env)"
    "signals (main env) = []" "exit_code (main env) = 0"
    by (simp_all add: m)
next
  assume a: "pidfile env = Some pid \<and> 0 < pid \<and> kill_probe env pid"
  then have m: "main env = \<lparr>exit_code = 0, pidfile_after = Some pid, signals = [(pid, SIGUSR1)],
      child = None\<rparr>"
    by (simp add: main_def check_running_def)
  show "signals (main env) = [(pid, SIGUSR1)]" "exit_code (main env) = 0"
    "pidfile_after (main env) = Some pid" "child (main env) = None"
    by (simp_all add: m)
next
  assume a: "pidfile env = Some pid \<and> \<not> kill_probe env pid"
  then show "check_running env = (0, None)" by (simp add: check_running_def)
  have d: "daemon (env\<lparr>pidfile := None\<rparr>) = daemon env"
    by (simp add: daemon_def capture_def finish_def Let_def
        cong: sum.case_cong option.case_cong if_cong prod.case_cong)
  from a show "main env = main (env\<lparr>pidfile := None\<rparr>)"
    by (simp add: main_def check_running_def d cong: option.case_cong)
qed

text \<open>
  \<^bold>\<open>Claim C1\<close> as stated fails: with no identity file, an invocation that finds no key
  exits with 1, having started no daemon and created no identity file (lines 582--587);
  and one whose \<^verbatim>\<open>fopen\<close> of the identity file fails has started the daemon and
  created no identity file (lines 596--600).
\<close>

theorem start_without_pidfile:
  "pidfile (first_start\<lparr>api_key := None\<rparr>) = None
   \<and> pidfile_after (main (first_start\<lparr>api_key := None\<rparr>)) = None
   \<and> child (main (first_start\<lparr>api_key := None\<rparr>)) = None
   \<and> exit_code (main (first_start\<lparr>api_key := None\<rparr>)) = 1
   \<and> pidfile (first_start\<lparr>pidfile_fopen := False\<rparr>) = None
   \<and> pidfile_after (main (first_start\<lparr>pidfile_fopen := False\<rparr>)) = None
   \<and> child (main (first_start\<lparr>pidfile_fopen := False\<rparr>))
        = Some (daemon (first_start\<lparr>pidfile_fopen := False\<rparr>))
   \<and> exit_code (main (first_start\<lparr>pidfile_fopen := False\<rparr>)) = 0"
  by (simp add: first_start_def main_def check_running_def)

text \<open>The amended claim at three invocations: no file, a live process, a stale file.\<close>

theorem single_instance_toggle_witness:
  "pidfile_after (main first_start) = Some 4242
   \<and> child (main first_start) = Some (daemon first_start)
   \<and> signals (main (first_start\<lparr>pidfile := Some 4242\<rparr>)) = [(4242, SIGUSR1)]
   \<and> exit_code (main (first_start\<lparr>pidfile := Some 4242\<rparr>)) = 0
   \<and> pidfile_after (main (first_start\<lparr>pidfile := Some 4242\<rparr>)) = Some 4242
   \<and> child (main (first_start\<lparr>pidfile := Some 4242\<rparr>)) = None
   \<and> check_running (first_start\<lparr>pidfile := Some 17\<rparr>) = (0, None)
   \<and> main (first_start\<lparr>pidfile := Some 17\<rparr>) = main (first_start\<lparr>pidfile := Some 17, pidfile := None\<rparr>)"
proof -
  have h1: "pidfile first_start = None \<and> api_key first_start \<noteq> None
      \<and> fork_result first_start = Some 4242 \<and> pidfile_fopen first_start"
    by (simp add: first_start_def)
  have h2: "pidfile (first_start\<lparr>pidfile := Some 4242\<rparr>) = Some 4242 \<and> (0 :: int) < 4242
      \<and> kill_probe (first_start\<lparr>pidfile := Some 4242\<rparr>) 4242"
    by (simp add: first_start_def)
  have h3: "pidfile (first_start\<lparr>pidfile := Some 17\<rparr>) = Some 17
      \<and> \<not> kill_probe (first_start\<lparr>pidfile := Some 17\<rparr>) 17"
    by (simp add: first_start_def)
  from single_instance_toggle[of first_start 4242 0] h1
  have "pidfile_after (main first_start) = Some 4242 \<and> child (main first_start) = Some (daemon first_start)"
    by blast
  moreover from single_instance_toggle[of "first_start\<lparr>pidfile := Some 4242\<rparr>" 0 4242] h2
  have "signals (main (first_start\<lparr>pidfile := Some 4242\<rparr>)) = [(4242, SIGUSR1)]
   \<and> exit_code (main (first_start\<lparr>pidfile := Some 4242\<rparr>)) = 0
   \<and> pidfile_after (main (first_start\<lparr>pidfile := Some 4242\<rparr>)) = Some 4242
   \<and> child (main (first_start\<lparr>pidfile := Some 4242\<rparr>)) = None"
    by blast
  moreover from single_instance_toggle[of "first_start\<lparr>pidfile := Some 17\<rparr>" 0 17] h3
  have "check_running (first_start\<lparr>pidfile := Some 17\<rparr>) = (0, None)
   \<and> main (first_start\<lparr>pidfile := Some 17\<rparr>) = main (first_start\<lparr>pidfile := Some 17, pidfile := None\<rparr>)"
    by blast
  ultimately show ?thesis by blast
qed

section \<open>What holds of the escapes and of the status record\<close>

lemma unescape_Cons_plain: "c \<noteq> backslash \<Longrightarrow> unescape (c # xs) = c # unescape xs"
  by (cases xs) simp_all

lemma unescape_escape_char: "unescape (json_escape_char c @ xs) = c # unescape xs"
proof (cases "c = CHR 0x0A \<or> c = CHR 0x09 \<or> c = CHR 0x0D \<or> c = dquote \<or> c = backslash")
  case True
  then show ?thesis
    by (auto simp: json_escape_char_def unescape_char_def dquote_def backslash_def)
next
  case False
  then have "json_escape_char c = [c]" by (simp add: json_escape_char_def)
  with False show ?thesis by (simp add: unescape_Cons_plain)
qed

lemma unescape_json_escape: "unescape (json_escape s) = s"
  by (induction s) (simp_all add: json_escape_def unescape_escape_char)

lemma json_escape_char_no_dquote: "c \<noteq> dquote \<Longrightarrow> dquote \<notin> set (json_escape_char c)"
  by (simp add: json_escape_char_def dquote_def backslash_def)

lemma json_escape_no_dquote: "dquote \<notin> set s \<Longrightarrow> dquote \<notin> set (json_escape s)"
proof (induction s)
  case Nil
  then show ?case by (simp add: json_escape_def)
next
  case (Cons a s)
  then have "a \<noteq> dquote" "dquote \<notin> set (json_escape s)" by auto
  then show ?case
    using json_escape_char_no_dquote[of a] by (simp add: json_escape_def)
qed

lemma json_escape_char_no_NUL: "c \<noteq> NUL \<Longrightarrow> NUL \<notin> set (json_escape_char c)"
  by (simp add: json_escape_char_def dquote_def backslash_def NUL_def)

lemma json_escape_no_NUL: "NUL \<notin> set s \<Longrightarrow> NUL \<notin> set (json_escape s)"
proof (induction s)
  case Nil
  then show ?case by (simp add: json_escape_def)
next
  case (Cons a s)
  then have "a \<noteq> NUL" "NUL \<notin> set (json_escape s)" by auto
  then show ?case
    using json_escape_char_no_NUL[of a] by (simp add: json_escape_def)
qed

lemma strchr_first: "c \<notin> set raw \<Longrightarrow> strchr (raw @ c # rest) c = Some (c # rest)"
  by (induction raw) auto

lemma c_str_id: "NUL \<notin> set s \<Longrightarrow> c_str s = s"
  unfolding c_str_def by (induction s) auto

lemma strstr_brace:
  "strstr (''{'' @ text_marker @ xs) text_marker = Some (text_marker @ xs)"
  by (simp add: text_marker_def dquote_def)

text \<open>
  The round trip where it holds: a text without a double quote comes back as it was,
  its newlines, tabs, carriage returns and backslashes included, from a response that
  holds it encoded in the text field.
\<close>

theorem unquoted_text_round_trip:
  assumes "dquote \<notin> set s" and "NUL \<notin> set s" and "NUL \<notin> set rest"
  shows "transcribe_audio
           \<lparr>mkstemps_ok = True, curl_init_ok = True,
            perform = CurlOk (Some (''{'' @ text_marker @ json_escape s @ dquote # rest))\<rparr>
           audio_data = Inr (Some s)"
proof -
  let ?field = "json_escape s"
  let ?body = "''{'' @ text_marker @ ?field @ dquote # rest"
  have nq: "dquote \<notin> set ?field" using assms(1) by (rule json_escape_no_dquote)
  have nz: "NUL \<notin> set ?field" using assms(2) by (rule json_escape_no_NUL)
  have "NUL \<notin> set ?body"
    using nz assms(3) by (simp add: text_marker_def dquote_def NUL_def)
  then have cs: "c_str ?body = ?body" by (rule c_str_id)
  have ss: "strstr ?body text_marker = Some (text_marker @ ?field @ dquote # rest)"
    by (rule strstr_brace)
  have dr: "drop 8 (text_marker @ ?field @ dquote # rest) = ?field @ dquote # rest"
    by (simp add: length_text_marker)
  have sc: "strchr (?field @ dquote # rest) dquote = Some (dquote # rest)"
    using nq by (rule strchr_first)
  have ue: "c_str (unescape_loop (?field @ [NUL]) 0 0) = unescape ?field"
    using nz by (rule unescape_in_place)
  have "parse_response ?body = Some (unescape ?field)"
    unfolding parse_response_def ss by (simp add: dr sc ue Let_def del: drop_append)
  then have "parse_response (c_str ?body) = Some s"
    unfolding cs by (simp only: unescape_json_escape)
  then show ?thesis
    by (simp add: transcribe_audio_def)
qed

theorem unquoted_text_round_trip_witness:
  "transcribe_audio
     \<lparr>mkstemps_ok = True, curl_init_ok = True,
      perform = CurlOk (Some (''{'' @ text_marker
                  @ json_escape [CHR ''a'', CHR 0x0A, backslash, CHR 0x09, CHR ''b''] @ dquote # ''}''))\<rparr>
     [] = Inr (Some [CHR ''a'', CHR 0x0A, backslash, CHR 0x09, CHR ''b''])"
proof -
  have h1: "dquote \<notin> set [CHR ''a'', CHR 0x0A, backslash, CHR 0x09, CHR ''b'']"
    and h2: "NUL \<notin> set [CHR ''a'', CHR 0x0A, backslash, CHR 0x09, CHR ''b'']"
    and h3: "NUL \<notin> set ''}''"
    by (simp_all add: dquote_def backslash_def NUL_def)
  from unquoted_text_round_trip[OF h1 h2 h3] show ?thesis .
qed

lemma update_status_overwrites:
  "update_status (Some old) now start status level
     = Some (status_line status level (now - start))"
  by (simp add: update_status_def Let_def)

lemma show_nat_digit: "n < 10 \<Longrightarrow> show_nat n = [digit_char n]"
  by (subst show_nat.simps) simp

lemma show_nat_two: "10 \<le> n \<Longrightarrow> n < 100 \<Longrightarrow> show_nat n = [digit_char (n div 10), digit_char (n mod 10)]"
  by (subst show_nat.simps) (simp add: show_nat_digit)

lemma fmt_02ld_two:
  assumes "n < 100"
  shows "fmt_02ld (int n) = [digit_char (n div 10), digit_char (n mod 10)]"
proof (cases "n < 10")
  case True
  then show ?thesis
    by (simp add: fmt_02ld_def fmt_ld_def show_nat_digit digit_char_def)
next
  case False
  with assms show ?thesis
    by (simp add: fmt_02ld_def fmt_ld_def show_nat_two)
qed

lemma round_half_even_unit:
  assumes "0 \<le> x" and "x \<le> 1"
  shows "0 \<le> round_half_even (x * 100) \<and> round_half_even (x * 100) \<le> 100"
proof -
  let ?y = "x * 100"
  let ?f = "\<lfloor>?y\<rfloor>"
  have y: "0 \<le> ?y" "?y \<le> 100" using assms by simp_all
  have f0: "0 \<le> ?f" using y(1) by simp
  have "?f \<le> \<lfloor>100 :: rat\<rfloor>" using y(2) by (rule floor_mono)
  then have f1: "?f \<le> 100" by simp
  have r: "round_half_even ?y = ?f \<or> round_half_even ?y = ?f + 1"
    by (simp add: round_half_even_def Let_def)
  show ?thesis
  proof (cases "?f = 100")
    case True
    have "of_int ?f \<le> ?y" by (rule of_int_floor_le)
    with True have "?y = 100" using y(2) by simp
    then have "round_half_even ?y = 100" by (simp add: round_half_even_def)
    then show ?thesis by simp
  next
    case False
    with f1 have "?f + 1 \<le> 100" by linarith
    with f0 r show ?thesis by linarith
  qed
qed

lemma fmt_2f_unit:
  assumes "0 \<le> x" and "x \<le> 1"
  shows "\<exists>h\<le>100. h = nat (round_half_even (x * 100))
           \<and> fmt_2f x = [digit_char (h div 100), CHR ''.'', digit_char (h mod 100 div 10),
                          digit_char (h mod 10)]"
proof -
  let ?h = "nat (round_half_even (x * 100))"
  from round_half_even_unit[OF assms] have h: "?h \<le> 100" by (simp add: nat_le_iff)
  then have "?h div 100 < 10" by simp
  then have "show_nat (?h div 100) = [digit_char (?h div 100)]" by (rule show_nat_digit)
  moreover have "\<bar>x\<bar> = x" using assms(1) by simp
  ultimately have "fmt_2f x = [digit_char (?h div 100), CHR ''.'', digit_char (?h mod 100 div 10),
                          digit_char (?h mod 10)]"
    using assms(1) by (simp add: fmt_2f_def Let_def)
  with h show ?thesis by blast
qed

text \<open>
  The record of the status file. Every call of \<^verbatim>\<open>update_status\<close> on an open file
  replaces the whole content, whatever it was, by one line. For a level between 0 and 1
  and an elapsed time below 100 minutes, the line is the status, a bar, the level rounded
  to hundredths as one digit, a point and two digits, a bar, two digits of minutes, a
  colon, two digits of seconds, and a newline.
\<close>

theorem status_line_format:
  assumes "0 \<le> level" and "level \<le> 1" and "0 \<le> elapsed" and "elapsed < 6000"
  shows "\<exists>h m s. h \<le> 100 \<and> h = nat (round_half_even (level * 100))
           \<and> m < 100 \<and> s < 60 \<and> elapsed = int (60 * m + s)
           \<and> update_status (Some old) (start + elapsed) start status level
              = Some (status @ ''|''
                      @ [digit_char (h div 100), CHR ''.'', digit_char (h mod 100 div 10),
                         digit_char (h mod 10)]
                      @ ''|'' @ [digit_char (m div 10), digit_char (m mod 10)]
                      @ '':'' @ [digit_char (s div 10), digit_char (s mod 10)] @ [CHR 0x0A])"
proof -
  let ?m = "nat (elapsed div 60)" and ?s = "nat (elapsed mod 60)"
  have dn: "0 \<le> elapsed div 60" and dlt: "elapsed div 60 < 100"
    using assms(3,4) by arith+
  have mn: "0 \<le> elapsed mod 60" and mlt: "elapsed mod 60 < 60" by simp_all
  have m: "?m < 100" using dn dlt by linarith
  have s: "?s < 60" using mn mlt by linarith
  have "elapsed = 60 * (elapsed div 60) + elapsed mod 60" by simp
  then have el: "elapsed = int (60 * ?m + ?s)" using dn mn by simp
  have cd: "c_div elapsed 60 = int ?m"
    using assms(3) dn by (cases "elapsed = 0") (simp_all add: c_div_def)
  have cd': "c_div elapsed 60 = elapsed div 60" using cd dn by simp
  have "c_mod elapsed 60 = elapsed mod 60"
    unfolding c_mod_def cd' by (simp add: minus_mult_div_eq_mod)
  then have cm: "c_mod elapsed 60 = int ?s" using mn by simp
  from fmt_2f_unit[OF assms(1,2)] obtain h where h: "h \<le> 100"
    "h = nat (round_half_even (level * 100))"
    "fmt_2f level = [digit_char (h div 100), CHR ''.'', digit_char (h mod 100 div 10),
                          digit_char (h mod 10)]" by blast
  have "s < 100" if "s < 60" for s :: nat using that by simp
  then have s': "?s < 100" using s by blast
  have "update_status (Some old) (start + elapsed) start status level
      = Some (status @ ''|''
                      @ [digit_char (h div 100), CHR ''.'', digit_char (h mod 100 div 10),
                         digit_char (h mod 10)]
                      @ ''|'' @ [digit_char (?m div 10), digit_char (?m mod 10)]
                      @ '':'' @ [digit_char (?s div 10), digit_char (?s mod 10)] @ [CHR 0x0A])"
  proof -
    have e: "start + elapsed - start = elapsed" by simp
    have f1: "fmt_02ld (c_div elapsed 60) = [digit_char (?m div 10), digit_char (?m mod 10)]"
      unfolding cd by (rule fmt_02ld_two[OF m])
    have f2: "fmt_02ld (c_mod elapsed 60) = [digit_char (?s div 10), digit_char (?s mod 10)]"
      unfolding cm by (rule fmt_02ld_two[OF s'])
    show ?thesis
      unfolding update_status_overwrites status_line_def e f1 f2 h(3) by simp
  qed
  with h(1,2) m s el show ?thesis by blast
qed

theorem status_line_format_witness:
  "update_status (Some ''RECORDING|0.93|01:04 and what an older, longer line left'')
     (1000 + 65) 1000 ''RECORDING'' (1 / 8)
   = Some (''RECORDING|0.12|01:05'' @ [CHR 0x0A])"
proof -
  have h: "(0 :: rat) \<le> 1 / 8" "(1 / 8 :: rat) \<le> 1" "(0 :: int) \<le> 65" "(65 :: int) < 6000"
    by simp_all
  from status_line_format[OF h, of "''RECORDING|0.93|01:04 and what an older, longer line left''"
      1000 "''RECORDING''"]
  obtain hh m s where f: "hh = nat (round_half_even (1 / 8 * 100))" "m < 100" "s < 60"
    "(65 :: int) = int (60 * m + s)"
    "update_status (Some ''RECORDING|0.93|01:04 and what an older, longer line left'')
       (1000 + 65) 1000 ''RECORDING'' (1 / 8)
     = Some (''RECORDING'' @ ''|''
              @ [digit_char (hh div 100), CHR ''.'', digit_char (hh mod 100 div 10),
                 digit_char (hh mod 10)]
              @ ''|'' @ [digit_char (m div 10), digit_char (m mod 10)]
              @ '':'' @ [digit_char (s div 10), digit_char (s mod 10)] @ [CHR 0x0A])"
    by blast
  have "\<lfloor>25 / 2 :: rat\<rfloor> = 12" by (rule floor_unique) simp_all
  then have hh: "hh = 12" using f(1) by (simp add: round_half_even_def Let_def)
  have ms65: "60 * m + s = 65" using f(4) by linarith
  with f(3) have m1: "m = 1" by linarith
  with ms65 have s5: "s = 5" by linarith
  note ms = m1 s5
  show ?thesis unfolding f(5) hh ms by (simp add: digit_char_def)
qed

text \<open>Every status the capture thread and \<^verbatim>\<open>main\<close> write is in the table, but one.\<close>

lemma statuses_daemon_in_table:
  assumes "s \<in> set (statuses (daemon env))"
  shows "s \<in> set status_text_keys \<or> s = ''ERROR: Audio device failed''"
proof -
  obtain ws e st where c: "capture env = (ws, e, st)" by (cases "capture env") auto
  have W: "map fst ws \<in> {[''ERROR: Audio device failed''], [], [''READY'', ''RECORDING''],
                          [''READY'', ''RECORDING'', ''MAX_TIME'']}"
    using c by (cases env rule: capture_cases) (auto split: if_splits)
  have T: "tail_of env st \<in> {[''NO_AUDIO''], [''UPLOADING''], [''UPLOADING'', ''COPIED''],
                             [''UPLOADING'', ''FAILED'']}"
    by (rule tail_of_cases)
  from assms W T show ?thesis
    unfolding statuses_daemon[OF c] status_text_keys_def
    by (cases "e \<in> {Running, Faulted, Hung}") auto
qed

end
